theory Spec2Isabelle
  imports Complex_Main "HOL-Library.Sublist"
begin

section \<open>Python values shared by the backend services\<close>

text \<open>
  Python strings are modelled as byte strings in UTF-8; the few non-ASCII letters of the
  source's literals are written as their two bytes.  Exceptions are values; \<open>str_exn\<close> is
  Python's \<open>str(e)\<close>.
\<close>

datatype exn =
    ValueError string
  | IndexError string
  | KeyError string
  | OverflowError string
  | OSError string
  | FileNotFoundError string
  | NotADirectoryError string
  | IsADirectoryError string
  | PermissionError string
  | CalledProcessError "string list" int
  | LibraryError string

function str_nat :: "nat \<Rightarrow> string" where
  "str_nat n =
     (if n < 10 then [char_of (48 + n)] else str_nat (n div 10) @ [char_of (48 + n mod 10)])"
  by pat_completeness auto
termination
  by (relation "measure id") auto

text \<open>
  \<open>repr\<close> of a string: in double quotes when the string holds an apostrophe and no double
  quote, in apostrophes otherwise; the backslash, the chosen quote and the control characters
  are escaped.  Bytes above 127 are left as they are (Python escapes the unprintable ones among
  the characters they encode).
\<close>

definition hex_digit :: "nat \<Rightarrow> char" where
  "hex_digit d = (if d < 10 then char_of (48 + d) else char_of (87 + d))"

definition py_repr_char :: "char \<Rightarrow> char \<Rightarrow> string" where
  "py_repr_char q c =
     (if c = CHR 0x5C then [CHR 0x5C, CHR 0x5C]
      else if c = q then [CHR 0x5C, q]
      else if c = CHR 0x09 then [CHR 0x5C, CHR ''t'']
      else if c = CHR 0x0A then [CHR 0x5C, CHR ''n'']
      else if c = CHR 0x0D then [CHR 0x5C, CHR ''r'']
      else if (of_char c :: nat) < 32 \<or> c = CHR 0x7F
        then [CHR 0x5C, CHR ''x'', hex_digit (of_char c div 16), hex_digit (of_char c mod 16)]
      else [c])"

definition py_repr :: "string \<Rightarrow> string" where
  "py_repr s =
     (let q = (if CHR 0x27 \<in> set s \<and> CHR 0x22 \<notin> set s then CHR 0x22 else CHR 0x27)
      in [q] @ concat (map (py_repr_char q) s) @ [q])"

fun py_repr_items :: "string list \<Rightarrow> string" where
  "py_repr_items [] = []"
| "py_repr_items [x] = py_repr x"
| "py_repr_items (x # y # ys) = py_repr x @ '', '' @ py_repr_items (y # ys)"

definition py_repr_list :: "string list \<Rightarrow> string" where
  "py_repr_list xs = ''['' @ py_repr_items xs @ '']''"

text \<open>
  The text of an error of the operating system, with one path or with two, and the errors the
  file operations below raise (Linux).
\<close>

definition os_error :: "nat \<Rightarrow> string \<Rightarrow> string \<Rightarrow> string" where
  "os_error errno strerror p = ''[Errno '' @ str_nat errno @ ''] '' @ strerror @ '': '' @ py_repr p"

definition os_error2 :: "nat \<Rightarrow> string \<Rightarrow> string \<Rightarrow> string \<Rightarrow> string" where
  "os_error2 errno strerror p p' = os_error errno strerror p @ '' -> '' @ py_repr p'"

definition enoent :: "string \<Rightarrow> exn" where
  "enoent p = FileNotFoundError (os_error 2 ''No such file or directory'' p)"

definition enotdir :: "string \<Rightarrow> exn" where
  "enotdir p = NotADirectoryError (os_error 20 ''Not a directory'' p)"

definition eisdir :: "string \<Rightarrow> exn" where
  "eisdir p = IsADirectoryError (os_error 21 ''Is a directory'' p)"

definition eacces :: "string \<Rightarrow> exn" where
  "eacces p = PermissionError (os_error 13 ''Permission denied'' p)"

datatype errno = ENOENT | ENOTDIR | EISDIR | EACCES | EBUSY | ENOTEMPTY

fun errno_code :: "errno \<Rightarrow> nat" where
  "errno_code ENOENT = 2"
| "errno_code ENOTDIR = 20"
| "errno_code EISDIR = 21"
| "errno_code EACCES = 13"
| "errno_code EBUSY = 16"
| "errno_code ENOTEMPTY = 39"

fun strerror :: "errno \<Rightarrow> string" where
  "strerror ENOENT = ''No such file or directory''"
| "strerror ENOTDIR = ''Not a directory''"
| "strerror EISDIR = ''Is a directory''"
| "strerror EACCES = ''Permission denied''"
| "strerror EBUSY = ''Device or resource busy''"
| "strerror ENOTEMPTY = ''Directory not empty''"

text \<open>The subclass of OSError that Python raises for an error number.\<close>

fun os_exn :: "errno \<Rightarrow> string \<Rightarrow> exn" where
  "os_exn ENOENT m = FileNotFoundError m"
| "os_exn ENOTDIR m = NotADirectoryError m"
| "os_exn EISDIR m = IsADirectoryError m"
| "os_exn EACCES m = PermissionError m"
| "os_exn EBUSY m = OSError m"
| "os_exn ENOTEMPTY m = OSError m"

definition raise_os :: "errno \<Rightarrow> string \<Rightarrow> exn" where
  "raise_os k p = os_exn k (os_error (errno_code k) (strerror k) p)"

definition raise_os2 :: "errno \<Rightarrow> string \<Rightarrow> string \<Rightarrow> exn" where
  "raise_os2 k p p' = os_exn k (os_error2 (errno_code k) (strerror k) p p')"

text \<open>
  The names of the signals (\<open>signal.Signals\<close> on Linux), for the text of a
  CalledProcessError whose process was ended by one.
\<close>

definition signal_names :: "(nat \<times> string) list" where
  "signal_names =
     [(1, ''SIGHUP''), (2, ''SIGINT''), (3, ''SIGQUIT''), (4, ''SIGILL''), (5, ''SIGTRAP''),
      (6, ''SIGABRT''), (7, ''SIGBUS''), (8, ''SIGFPE''), (9, ''SIGKILL''), (10, ''SIGUSR1''),
      (11, ''SIGSEGV''), (12, ''SIGUSR2''), (13, ''SIGPIPE''), (14, ''SIGALRM''), (15, ''SIGTERM''),
      (16, ''SIGSTKFLT''), (17, ''SIGCHLD''), (18, ''SIGCONT''), (19, ''SIGSTOP''), (20, ''SIGTSTP''),
      (21, ''SIGTTIN''), (22, ''SIGTTOU''), (23, ''SIGURG''), (24, ''SIGXCPU''), (25, ''SIGXFSZ''),
      (26, ''SIGVTALRM''), (27, ''SIGPROF''), (28, ''SIGWINCH''), (29, ''SIGIO''), (30, ''SIGPWR''),
      (31, ''SIGSYS''), (34, ''SIGRTMIN''), (64, ''SIGRTMAX'')]"

fun str_exn :: "exn \<Rightarrow> string" where
  "str_exn (ValueError m) = m"
| "str_exn (IndexError m) = m"
| "str_exn (KeyError k) = py_repr k"
| "str_exn (OverflowError m) = m"
| "str_exn (OSError m) = m"
| "str_exn (FileNotFoundError m) = m"
| "str_exn (NotADirectoryError m) = m"
| "str_exn (IsADirectoryError m) = m"
| "str_exn (PermissionError m) = m"
| "str_exn (CalledProcessError cmd rc) =
     ''Command '' @ [CHR 0x27] @ py_repr_list cmd @ [CHR 0x27] @
       (if rc < 0 then
          (case map_of signal_names (nat (- rc)) of
             Some name \<Rightarrow> '' died with <Signals.'' @ name @ '': '' @ str_nat (nat (- rc)) @ ''>.''
           | None \<Rightarrow> '' died with unknown signal '' @ str_nat (nat (- rc)) @ ''.'')
        else '' returned non-zero exit status '' @ str_nat (nat rc) @ ''.'')"
| "str_exn (LibraryError m) = m"

text \<open>
  \<open>xs[i]\<close>: an index counts from the end when negative; one that does not fit the machine's
  index type (64 bits, signed) is refused before the list is looked at.
\<close>

definition py_index :: "'a list \<Rightarrow> int \<Rightarrow> exn + 'a" where
  "py_index xs i =
     (if i < - (2 ^ 63) \<or> 2 ^ 63 \<le> i
      then Inl (IndexError ''cannot fit 'int' into an index-sized integer'')
      else if 0 \<le> i \<and> i < int (length xs) then Inr (xs ! nat i)
      else if i < 0 \<and> - int (length xs) \<le> i then Inr (xs ! nat (int (length xs) + i))
      else Inl (IndexError ''list index out of range''))"

section \<open>Auth service (services/auth\_service.py)\<close>

record SessionData =
  session_id :: string
  current_question :: int
  authenticated :: bool

record security_question =
  number :: int
  q_text :: string
  answer :: string

definition security_questions :: "security_question list" where
  "security_questions =
     [\<lparr>number = 1,
       q_text = [CHR 0xC2, CHR 0xBF] @ ''Cu'' @ [CHR 0xC3, CHR 0xA1] @ ''l es el nombre de tu iglesia?'',
       answer = ''iglesia central''\<rparr>,
      \<lparr>number = 2,
       q_text = [CHR 0xC2, CHR 0xBF] @ ''En qu'' @ [CHR 0xC3, CHR 0xA9] @ '' ciudad se realizar''
                  @ [CHR 0xC3, CHR 0xA1] @ '' el evento?'',
       answer = ''lima''\<rparr>,
      \<lparr>number = 3,
       q_text = [CHR 0xC2, CHR 0xBF] @ ''Cu'' @ [CHR 0xC3, CHR 0xA1] @ ''l es el tema de la campa''
                  @ [CHR 0xC3, CHR 0xB1] @ ''a?'',
       answer = ''esperanza viva''\<rparr>]"

record AuthService =
  sessions :: "string \<rightharpoonup> SessionData"

definition auth_init :: AuthService where
  "auth_init = \<lparr>sessions = Map.empty\<rparr>"

text \<open>\<open>uuid\<close> is the string that \<open>str(uuid.uuid4())\<close> returns in this call.\<close>

definition create_session :: "AuthService \<Rightarrow> string \<Rightarrow> (string \<times> security_question) \<times> AuthService" where
  "create_session svc uuid =
     ((uuid, security_questions ! 0),
      svc\<lparr>sessions := (sessions svc)(uuid \<mapsto>
        \<lparr>session_id = uuid, current_question = 1, authenticated = False\<rparr>)\<rparr>)"

text \<open>
  \<open>_normalize_text\<close>: strip, lower, drop every character that is neither a word character
  nor white space, then replace every run of white space by one space.  Python works on the
  characters of the string.  The characters up to U+00FF are decoded from their one or two
  bytes and treated as Python treats them (\<open>str.isspace\<close>, \<open>str.lower\<close> and the classes
  \<open>\w\<close> and \<open>\s\<close> of \<open>re\<close>); a byte of any other character is kept as it is, as a
  letter without case would be (256 plus the byte stands for it): for the upper-case letters
  and the punctuation beyond U+00FF the model is not the source.
\<close>

fun decode :: "string \<Rightarrow> nat list" where
  "decode [] = []"
| "decode [c] = [if (of_char c :: nat) < 128 then of_char c else 256 + of_char c]"
| "decode (c # d # cs) =
     (if ((of_char c :: nat) = 194 \<or> (of_char c :: nat) = 195)
         \<and> 128 \<le> (of_char d :: nat) \<and> (of_char d :: nat) < 192
      then ((of_char c - 194) * 64 + of_char d) # decode cs
      else (if (of_char c :: nat) < 128 then of_char c else 256 + of_char c) # decode (d # cs))"

definition encode_char :: "nat \<Rightarrow> string" where
  "encode_char n =
     (if n < 128 then [char_of n]
      else if n < 192 then [CHR 0xC2, char_of n]
      else if n < 256 then [CHR 0xC3, char_of (n - 64)]
      else [char_of (n - 256)])"

definition encode :: "nat list \<Rightarrow> string" where
  "encode ns = concat (map encode_char ns)"

definition py_isspace :: "nat \<Rightarrow> bool" where
  "py_isspace n = (n \<in> {9, 10, 11, 12, 13, 28, 29, 30, 31, 32, 133, 160})"

definition py_strip :: "nat list \<Rightarrow> nat list" where
  "py_strip s = rev (dropWhile py_isspace (rev (dropWhile py_isspace s)))"

definition py_lower_char :: "nat \<Rightarrow> nat" where
  "py_lower_char n =
     (if (65 \<le> n \<and> n \<le> 90) \<or> (192 \<le> n \<and> n \<le> 222 \<and> n \<noteq> 215) then n + 32 else n)"

definition re_word :: "nat \<Rightarrow> bool" where
  "re_word n =
     ((48 \<le> n \<and> n \<le> 57) \<or> (65 \<le> n \<and> n \<le> 90) \<or> n = 95 \<or> (97 \<le> n \<and> n \<le> 122)
      \<or> n \<in> {170, 178, 179, 181, 185, 186, 188, 189, 190}
      \<or> (192 \<le> n \<and> n \<noteq> 215 \<and> n \<noteq> 247))"

fun collapse_spaces :: "bool \<Rightarrow> nat list \<Rightarrow> nat list" where
  "collapse_spaces in_run [] = []"
| "collapse_spaces in_run (c # cs) =
     (if py_isspace c then (if in_run then collapse_spaces True cs
                            else 32 # collapse_spaces True cs)
      else c # collapse_spaces False cs)"

definition normalize_text :: "string \<Rightarrow> string" where
  "normalize_text txt =
     (let t1 = map py_lower_char (py_strip (decode txt));
          t2 = filter (\<lambda>c. re_word c \<or> py_isspace c) t1
      in encode (collapse_spaces False t2))"

record ValidationResponse =
  success :: bool
  message :: "string option"
  next_question :: "int option"
  question_text :: "string option"

definition set_current_question :: "AuthService \<Rightarrow> string \<Rightarrow> SessionData \<Rightarrow> int \<Rightarrow> AuthService" where
  "set_current_question svc sid sd q =
     svc\<lparr>sessions := (sessions svc)(sid \<mapsto> sd\<lparr>current_question := q\<rparr>)\<rparr>"

definition validate_answer ::
  "AuthService \<Rightarrow> string \<Rightarrow> int \<Rightarrow> string \<Rightarrow> (exn + ValidationResponse) \<times> AuthService" where
  "validate_answer svc sid question_number ans =
     (case sessions svc sid of
        None \<Rightarrow> (Inl (ValueError (''Sesi'' @ [CHR 0xC3, CHR 0xB3] @ ''n inv'' @ [CHR 0xC3, CHR 0xA1] @ ''lida'')), svc)
      | Some sd \<Rightarrow>
          let normalized_answer = normalize_text ans in
          (case py_index security_questions (question_number - 1) of
             Inl e \<Rightarrow> (Inl e, svc)
           | Inr expected \<Rightarrow>
               if normalized_answer = answer expected then
                 (if question_number = 3 then
                    (Inr \<lparr>success = True,
                          message = Some (''Autenticaci'' @ [CHR 0xC3, CHR 0xB3] @ ''n exitosa''),
                          next_question = None, question_text = None\<rparr>,
                     svc\<lparr>sessions := (sessions svc)(sid \<mapsto> sd\<lparr>authenticated := True\<rparr>)\<rparr>)
                  else
                    let svc' = set_current_question svc sid sd (question_number + 1) in
                    (case py_index security_questions question_number of
                       Inl e \<Rightarrow> (Inl e, svc')
                     | Inr next_q \<Rightarrow>
                         (Inr \<lparr>success = True, message = None,
                               next_question = Some (number next_q),
                               question_text = Some (q_text next_q)\<rparr>, svc')))
               else
                 (Inr \<lparr>success = False,
                       message = Some ''Respuesta incorrecta. Reiniciando...'',
                       next_question = Some 1,
                       question_text = Some (q_text (security_questions ! 0))\<rparr>,
                  set_current_question svc sid sd 1)))"

definition is_authenticated :: "AuthService \<Rightarrow> string \<Rightarrow> bool" where
  "is_authenticated svc sid = (case sessions svc sid of None \<Rightarrow> False | Some sd \<Rightarrow> authenticated sd)"

section \<open>Documents, images and PDF pages as the libraries present them\<close>

text \<open>
  python-docx: a document gives its body paragraphs and its tables; a table gives rows, a row
  cells, a cell paragraphs, a paragraph runs; a run has its text and its formatting.
\<close>

record run =
  run_text :: string
  run_format :: string

type_synonym docx_paragraph = "run list"
type_synonym cell = "docx_paragraph list"
type_synonym row = "cell list"
type_synonym table = "row list"

record document =
  paragraphs :: "docx_paragraph list"
  tables :: "table list"

text \<open>Pillow: an image has a colour mode and a size in pixels (the pixels are not modelled).\<close>

record image =
  img_mode :: string
  img_size :: "int \<times> int"

text \<open>reportlab: a page has a size and the images drawn on it.\<close>

record drawn_image =
  di_image :: image
  di_x :: int
  di_y :: int
  di_width :: int
  di_height :: int

record pdf_page =
  page_size :: "int \<times> int"
  page_images :: "drawn_image list"

section \<open>Python floats\<close>

text \<open>
  A \<open>float\<close> is an IEEE 754 double.  \<open>Dbl m e\<close> stands for the number \<open>m * 2 ^ e\<close>; the
  operations read their arguments by that value and give the double nearest to the exact
  result (ties to the even mantissa) in normal form: a mantissa of 53 bits, or the exponent
  -1074 of the subnormal numbers, and \<open>Dbl 0 0\<close> for zero (the sign of a zero is not kept: no
  comparison sees it).  A result of 2 ^ 1024 or more in size is an infinity.
\<close>

datatype dbl = Dbl int int

datatype xdbl = Finite dbl | PosInf | NegInf

function bit_length :: "int \<Rightarrow> int" where
  "bit_length n = (if n \<le> 0 then 0 else 1 + bit_length (n div 2))"
  by pat_completeness auto
termination
  by (relation "measure nat") auto

declare bit_length.simps [simp del]

text \<open>\<open>a / 2 ^ s\<close> rounded to the nearest integer, a tie to the even one.\<close>

definition round_shift :: "int \<Rightarrow> nat \<Rightarrow> int" where
  "round_shift a s =
     (let q = a div 2 ^ s; r = a mod 2 ^ s
      in if 2 ^ s < 2 * r \<or> (2 * r = 2 ^ s \<and> odd q) then q + 1 else q)"

definition to_double :: "int \<Rightarrow> int \<Rightarrow> xdbl" where
  "to_double m e =
     (let a = \<bar>m\<bar>;
          s = max 0 (max (bit_length a - 53) (- 1074 - e));
          q = round_shift a (nat s);
          u = min (53 - bit_length q) (e + s + 1074);
          q' = (if u < 0 then q div 2 else q * 2 ^ nat u);
          e' = e + s - u
      in if q = 0 then Finite (Dbl 0 0)
         else if 1024 < bit_length q' + e' then (if m < 0 then NegInf else PosInf)
         else Finite (Dbl (if m < 0 then - q' else q') e'))"

fun dbl_sub :: "dbl \<Rightarrow> dbl \<Rightarrow> xdbl" where
  "dbl_sub (Dbl m1 e1) (Dbl m2 e2) =
     (let e = min e1 e2
      in to_double (m1 * 2 ^ nat (e1 - e) - m2 * 2 ^ nat (e2 - e)) e)"

fun dbl_less :: "dbl \<Rightarrow> dbl \<Rightarrow> bool" where
  "dbl_less (Dbl m1 e1) (Dbl m2 e2) =
     (let e = min e1 e2
      in m1 * 2 ^ nat (e1 - e) < m2 * 2 ^ nat (e2 - e))"

text \<open>The number a float stands for.\<close>

definition dbl_val :: "dbl \<Rightarrow> real" where
  "dbl_val d = (case d of Dbl m e \<Rightarrow> of_int m * 2 powr of_int e)"

text \<open>\<open>x < y\<close> for a finite \<open>x\<close>.\<close>

fun float_lt :: "dbl \<Rightarrow> xdbl \<Rightarrow> bool" where
  "float_lt x (Finite y) = dbl_less x y"
| "float_lt x PosInf = True"
| "float_lt x NegInf = False"

text \<open>\<open>float(n)\<close> and \<open>x - n\<close> for an \<open>int\<close> \<open>n\<close>, which is converted first.\<close>

definition float_of_int :: "int \<Rightarrow> exn + dbl" where
  "float_of_int n =
     (case to_double n 0 of
        Finite d \<Rightarrow> Inr d
      | _ \<Rightarrow> Inl (OverflowError ''int too large to convert to float''))"

definition float_sub_int :: "dbl \<Rightarrow> int \<Rightarrow> exn + xdbl" where
  "float_sub_int x n =
     (case float_of_int n of
        Inl e \<Rightarrow> Inl e
      | Inr d \<Rightarrow> Inr (dbl_sub x d))"

section \<open>Operating system: file table, paths, clock\<close>

datatype content = Docx document | Pdf "pdf_page list" | Tiff image | Bytes string

text \<open>
  A file carries its last-modified time as \<open>os.stat\<close> reports it (\<open>st_mtime\<close>, a float),
  whether the system refuses to unlink or overwrite it (in use, read-only), and its content.
  The clock of a world is what \<open>time.time()\<close> returns there.
\<close>

datatype node = Dir | File dbl bool content

type_synonym location = "string list"

record world =
  files :: "(location \<times> node) list"
  cwd :: location
  clock :: dbl

definition node_at :: "(location \<times> node) list \<Rightarrow> location \<Rightarrow> node option" where
  "node_at fs l = (if l = [] then Some Dir else map_of fs l)"

definition is_dir :: "(location \<times> node) list \<Rightarrow> location \<Rightarrow> bool" where
  "is_dir fs l = (node_at fs l = Some Dir)"

definition valid_name :: "string \<Rightarrow> bool" where
  "valid_name n = (n \<noteq> [] \<and> n \<noteq> ''.'' \<and> n \<noteq> ''..'' \<and> CHR ''/'' \<notin> set n)"

fun split_sep :: "string \<Rightarrow> string list" where
  "split_sep [] = [[]]"
| "split_sep (c # cs) =
     (if c = CHR ''/'' then [] # split_sep cs
      else (case split_sep cs of [] \<Rightarrow> [[c]] | w # ws \<Rightarrow> (c # w) # ws))"

text \<open>
  Path resolution: every component is looked up in a directory; an empty component and
  \<open>.\<close> stay, \<open>..\<close> goes to the parent, a name goes to the entry of that name.  The file
  table is keyed by resolved locations (the lists of names from the root); there are no
  symbolic links.
\<close>

fun walk :: "(location \<times> node) list \<Rightarrow> location \<Rightarrow> string list \<Rightarrow> location option" where
  "walk fs l [] = Some l"
| "walk fs l (c # cs) =
     (if \<not> is_dir fs l then None
      else if c = [] \<or> c = ''.'' then walk fs l cs
      else if c = ''..'' then walk fs (butlast l) cs
      else (case map_of fs (l @ [c]) of None \<Rightarrow> None | Some n \<Rightarrow> walk fs (l @ [c]) cs))"

text \<open>
  Why a walk fails: a component that is not a directory stands where one is needed
  (\<open>ENOTDIR\<close>); otherwise a name is missing (\<open>ENOENT\<close>).
\<close>

fun blocked :: "(location \<times> node) list \<Rightarrow> location \<Rightarrow> string list \<Rightarrow> bool" where
  "blocked fs l [] = False"
| "blocked fs l (c # cs) =
     (if \<not> is_dir fs l then node_at fs l \<noteq> None
      else if c = [] \<or> c = ''.'' then blocked fs l cs
      else if c = ''..'' then blocked fs (butlast l) cs
      else (case map_of fs (l @ [c]) of None \<Rightarrow> False | Some n \<Rightarrow> blocked fs (l @ [c]) cs))"

definition start_of :: "world \<Rightarrow> string \<Rightarrow> location" where
  "start_of w p = (if hd p = CHR ''/'' then [] else cwd w)"

definition resolve :: "world \<Rightarrow> string \<Rightarrow> location option" where
  "resolve w p = (if p = [] then None else walk (files w) (start_of w p) (split_sep p))"

definition lookup_path :: "world \<Rightarrow> string \<Rightarrow> node option" where
  "lookup_path w p = (case resolve w p of None \<Rightarrow> None | Some l \<Rightarrow> node_at (files w) l)"

text \<open>The error of a path that does not resolve.\<close>

definition lookup_error :: "world \<Rightarrow> string \<Rightarrow> exn" where
  "lookup_error w p =
     (if p \<noteq> [] \<and> blocked (files w) (start_of w p) (split_sep p) then enotdir p else enoent p)"

text \<open>
  The directory in which the last component of a path is looked up, when an entry is created,
  replaced or renamed: slashes at the end of the path do not count as a component.
\<close>

definition strip_empty :: "string list \<Rightarrow> string list" where
  "strip_empty cs = rev (dropWhile (\<lambda>c. c = []) (rev cs))"

definition parent_dir :: "world \<Rightarrow> string \<Rightarrow> errno + location" where
  "parent_dir w p =
     (if p = [] then Inl ENOENT
      else let cs = butlast (strip_empty (split_sep p)) in
        case walk (files w) (start_of w p) cs of
          None \<Rightarrow> Inl (if blocked (files w) (start_of w p) cs then ENOTDIR else ENOENT)
        | Some d \<Rightarrow>
            if is_dir (files w) d then Inr d
            else Inl (if node_at (files w) d = None then ENOENT else ENOTDIR))"

text \<open>
  The location a path names when a file is created or replaced there (\<open>open(p, 'wb')\<close>); a
  path that ends in a slash, in \<open>.\<close> or in \<open>..\<close> names a directory.
\<close>

definition resolve_new :: "world \<Rightarrow> string \<Rightarrow> exn + location" where
  "resolve_new w p =
     (case parent_dir w p of
        Inl k \<Rightarrow> Inl (raise_os k p)
      | Inr d \<Rightarrow>
          if \<not> valid_name (last (split_sep p)) then Inl (eisdir p)
          else Inr (d @ [last (split_sep p)]))"

definition delete_key :: "location \<Rightarrow> (location \<times> node) list \<Rightarrow> (location \<times> node) list" where
  "delete_key l fs = filter (\<lambda>kv. fst kv \<noteq> l) fs"

definition os_path_join :: "string \<Rightarrow> string \<Rightarrow> string" where
  "os_path_join a b =
     (if b \<noteq> [] \<and> hd b = CHR ''/'' then b
      else if a = [] \<or> last a = CHR ''/'' then a @ b
      else a @ ''/'' @ b)"

definition os_path_dirname :: "string \<Rightarrow> string" where
  "os_path_dirname p =
     (let head = rev (dropWhile (\<lambda>c. c \<noteq> CHR ''/'') (rev p))
      in if head \<noteq> [] \<and> \<not> list_all (\<lambda>c. c = CHR ''/'') head
         then rev (dropWhile (\<lambda>c. c = CHR ''/'') (rev head)) else head)"

definition os_path_exists :: "world \<Rightarrow> string \<Rightarrow> bool" where
  "os_path_exists w p = (lookup_path w p \<noteq> None)"

definition os_path_isfile :: "world \<Rightarrow> string \<Rightarrow> bool" where
  "os_path_isfile w p = (case lookup_path w p of Some (File t lk c) \<Rightarrow> True | _ \<Rightarrow> False)"

text \<open>
  Directories carry no time stamp in the file table; the clock stands for the one of a
  directory (the source asks for the time stamp of regular files only).
\<close>

definition os_path_getmtime :: "world \<Rightarrow> string \<Rightarrow> exn + dbl" where
  "os_path_getmtime w p =
     (case lookup_path w p of
        None \<Rightarrow> Inl (lookup_error w p)
      | Some Dir \<Rightarrow> Inr (clock w)
      | Some (File t lk c) \<Rightarrow> Inr t)"

definition os_listdir :: "world \<Rightarrow> string \<Rightarrow> exn + string list" where
  "os_listdir w p =
     (case resolve w p of
        None \<Rightarrow> Inl (lookup_error w p)
      | Some d \<Rightarrow>
          if \<not> is_dir (files w) d
          then Inl (if node_at (files w) d = None then enoent p else enotdir p)
          else Inr (remdups (map (\<lambda>kv. last (fst kv))
                 (filter (\<lambda>kv. fst kv \<noteq> [] \<and> butlast (fst kv) = d \<and> valid_name (last (fst kv)))
                    (files w)))))"

definition os_remove :: "world \<Rightarrow> string \<Rightarrow> (exn + unit) \<times> world" where
  "os_remove w p =
     (case resolve w p of
        None \<Rightarrow> (Inl (lookup_error w p), w)
      | Some l \<Rightarrow>
          (case node_at (files w) l of
             None \<Rightarrow> (Inl (enoent p), w)
           | Some Dir \<Rightarrow> (Inl (eisdir p), w)
           | Some (File t lk c) \<Rightarrow>
               if lk then (Inl (eacces p), w)
               else (Inr (), w\<lparr>files := delete_key l (files w)\<rparr>)))"

definition read_file :: "world \<Rightarrow> string \<Rightarrow> exn + content" where
  "read_file w p =
     (case lookup_path w p of
        None \<Rightarrow> Inl (lookup_error w p)
      | Some Dir \<Rightarrow> Inl (eisdir p)
      | Some (File t lk c) \<Rightarrow> Inr c)"

definition write_file :: "world \<Rightarrow> string \<Rightarrow> content \<Rightarrow> (exn + unit) \<times> world" where
  "write_file w p c =
     (case resolve_new w p of
        Inl e \<Rightarrow> (Inl e, w)
      | Inr l \<Rightarrow>
          (case map_of (files w) l of
             Some Dir \<Rightarrow> (Inl (eisdir p), w)
           | Some (File t True c0) \<Rightarrow> (Inl (eacces p), w)
           | _ \<Rightarrow> (Inr (), w\<lparr>files := (l, File (clock w) False c) # delete_key l (files w)\<rparr>)))"

text \<open>
  \<open>os.rename\<close> of a file, in the order in which Linux finds the errors: the directory of the
  source, the directory of the destination, a path ending in \<open>.\<close> or \<open>..\<close>, the source
  itself, a slash at the end of either path, a destination that holds the source, a
  destination that is a directory.  The source keeps its time stamp and replaces a file at
  the destination.  Renaming a directory is outside the model and reported as an error.
\<close>

definition dot_last :: "string list \<Rightarrow> bool" where
  "dot_last cs = (cs = [] \<or> last cs = ''.'' \<or> last cs = ''..'')"

definition os_rename :: "world \<Rightarrow> string \<Rightarrow> string \<Rightarrow> (exn + unit) \<times> world" where
  "os_rename w src dst =
     (case parent_dir w src of
        Inl k \<Rightarrow> (Inl (raise_os2 k src dst), w)
      | Inr sd \<Rightarrow>
     (case parent_dir w dst of
        Inl k \<Rightarrow> (Inl (raise_os2 k src dst), w)
      | Inr dd \<Rightarrow>
          let sc = strip_empty (split_sep src); dc = strip_empty (split_sep dst) in
          if dot_last sc \<or> dot_last dc then (Inl (raise_os2 EBUSY src dst), w)
          else
            (case map_of (files w) (sd @ [last sc]) of
               None \<Rightarrow> (Inl (raise_os2 ENOENT src dst), w)
             | Some Dir \<Rightarrow> (Inl (LibraryError ''rename of a directory''), w)
             | Some (File t lk c) \<Rightarrow>
                 if last (split_sep src) = [] \<or> last (split_sep dst) = []
                 then (Inl (raise_os2 ENOTDIR src dst), w)
                 else if prefix (dd @ [last dc]) sd then (Inl (raise_os2 ENOTEMPTY src dst), w)
                 else
                   (case map_of (files w) (dd @ [last dc]) of
                      Some Dir \<Rightarrow> (Inl (raise_os2 EISDIR src dst), w)
                    | Some (File t' True c') \<Rightarrow> (Inl (raise_os2 EACCES src dst), w)
                    | _ \<Rightarrow>
                       if lk then (Inl (raise_os2 EACCES src dst), w)
                       else if dd @ [last dc] = sd @ [last sc] then (Inr (), w)
                       else (Inr (), w\<lparr>files := (dd @ [last dc], File t lk c)
                               # delete_key (dd @ [last dc]) (delete_key (sd @ [last sc]) (files w))\<rparr>)))))"


text \<open>
  \<open>str.replace(old, new)\<close> and \<open>old in s\<close>.
\<close>

function replace_from :: "string \<Rightarrow> string \<Rightarrow> string \<Rightarrow> string" where
  "replace_from old new [] = []"
| "replace_from old new (c # cs) =
     (if old \<noteq> [] \<and> prefix old (c # cs)
      then new @ replace_from old new (drop (length old) (c # cs))
      else c # replace_from old new cs)"
  by pat_completeness auto
termination
  by (relation "measure (\<lambda>(old, new, s). length s)") (auto simp: neq_Nil_conv)

definition py_replace :: "string \<Rightarrow> string \<Rightarrow> string \<Rightarrow> string" where
  "py_replace s old new =
     (if old = [] then new @ concat (map (\<lambda>c. c # new) s) else replace_from old new s)"

fun py_in :: "string \<Rightarrow> string \<Rightarrow> bool" where
  "py_in m [] = (m = [])"
| "py_in m (c # cs) = (prefix m (c # cs) \<or> py_in m cs)"

text \<open>Two file tables that differ at most in one entry, which is a directory in neither.\<close>

definition touches_only :: "location \<Rightarrow> (location \<times> node) list \<Rightarrow> (location \<times> node) list \<Rightarrow> bool" where
  "touches_only q fs fs' \<longleftrightarrow>
     q \<noteq> [] \<and> map_of fs q \<noteq> Some Dir \<and> map_of fs' q \<noteq> Some Dir
     \<and> (\<forall>k. k \<noteq> q \<longrightarrow> map_of fs' k = map_of fs k)"

section \<open>Template processor (services/template\_processor.py)\<close>

definition template_dir :: string where
  "template_dir = ''.''"

definition templates :: "string \<rightharpoonup> string" where
  "templates = [''a4'' \<mapsto> ''Formato a4.docx'', ''4x1'' \<mapsto> ''Formato 4x1.docx'']"

text \<open>\<open>data.get(key, "")\<close> on the dictionary of event fields.\<close>

definition data_get :: "(string \<rightharpoonup> string) \<Rightarrow> string \<Rightarrow> string" where
  "data_get data k = (case data k of None \<Rightarrow> [] | Some v \<Rightarrow> v)"

definition marker_keys :: "string list" where
  "marker_keys = [''fecha_evento'', ''hora_evento'', ''lugar_evento'', ''referencia_evento'']"

definition marker_of :: "string \<Rightarrow> string" where
  "marker_of k = ''{{'' @ k @ ''}}''"

text \<open>The dictionary \<open>replacements\<close>, in its insertion order.\<close>

definition replacements :: "(string \<rightharpoonup> string) \<Rightarrow> (string \<times> string) list" where
  "replacements data = map (\<lambda>k. (marker_of k, data_get data k)) marker_keys"

text \<open>The inner loop over the markers, for one run; assigning \<open>run.text\<close> keeps the run's
  formatting.\<close>

definition replace_marker :: "run \<Rightarrow> string \<times> string \<Rightarrow> run" where
  "replace_marker r mv =
     (if py_in (fst mv) (run_text r)
      then r\<lparr>run_text := py_replace (run_text r) (fst mv) (snd mv)\<rparr> else r)"

definition replace_in_run :: "(string \<rightharpoonup> string) \<Rightarrow> run \<Rightarrow> run" where
  "replace_in_run data r = foldl replace_marker r (replacements data)"

definition replace_in_runs :: "run list \<Rightarrow> (string \<rightharpoonup> string) \<Rightarrow> run list" where
  "replace_in_runs runs data = map (replace_in_run data) runs"

text \<open>The two loops of \<open>process_template\<close> over the loaded document.\<close>

definition fill_document :: "(string \<rightharpoonup> string) \<Rightarrow> document \<Rightarrow> document" where
  "fill_document data doc =
     doc\<lparr>paragraphs := map (\<lambda>p. replace_in_runs p data) (paragraphs doc),
         tables := map (map (map (map (\<lambda>p. replace_in_runs p data)))) (tables doc)\<rparr>"

definition load_document :: "world \<Rightarrow> string \<Rightarrow> exn + document" where
  "load_document w p =
     (case read_file w p of
        Inl e \<Rightarrow> Inl e
      | Inr (Docx d) \<Rightarrow> Inr d
      | Inr c \<Rightarrow> Inl (LibraryError (''Package not found at '' @ p)))"

definition process_template ::
  "world \<Rightarrow> string \<Rightarrow> (string \<rightharpoonup> string) \<Rightarrow> string \<Rightarrow> (exn + string) \<times> world" where
  "process_template w template_type data output_path =
     (case templates template_type of
        None \<Rightarrow> (Inl (KeyError template_type), w)
      | Some fname \<Rightarrow>
          let template_path = os_path_join template_dir fname in
          if \<not> os_path_exists w template_path
          then (Inl (FileNotFoundError (''Plantilla no encontrada: '' @ template_path)), w)
          else (case load_document w template_path of
                  Inl e \<Rightarrow> (Inl e, w)
                | Inr doc \<Rightarrow>
                    (case write_file w output_path (Docx (fill_document data doc)) of
                       (Inl e, w') \<Rightarrow> (Inl e, w')
                     | (Inr u, w') \<Rightarrow> (Inr output_path, w'))))"

text \<open>
  The specification's reading of a run's text: literal text without braces, interleaved with
  whole markers.  \<open>render\<close> is the text as the template has it, \<open>substituted\<close> the same text
  with every marker replaced by the value of its field; \<open>fill_piece\<close> replaces the markers of
  one field.
\<close>

datatype piece = Literal string | Mark string

fun render_piece :: "piece \<Rightarrow> string" where
  "render_piece (Literal s) = s"
| "render_piece (Mark k) = marker_of k"

definition render :: "piece list \<Rightarrow> string" where
  "render ps = concat (map render_piece ps)"

fun subst_piece :: "(string \<rightharpoonup> string) \<Rightarrow> piece \<Rightarrow> string" where
  "subst_piece data (Literal s) = s"
| "subst_piece data (Mark k) = data_get data k"

definition substituted :: "(string \<rightharpoonup> string) \<Rightarrow> piece list \<Rightarrow> string" where
  "substituted data ps = concat (map (subst_piece data) ps)"

definition brace_free :: "string \<Rightarrow> bool" where
  "brace_free s = (CHR ''{'' \<notin> set s \<and> CHR ''}'' \<notin> set s)"

fun piece_ok :: "piece \<Rightarrow> bool" where
  "piece_ok (Literal s) = brace_free s"
| "piece_ok (Mark k) = (k \<in> set marker_keys)"

definition fill_piece :: "(string \<rightharpoonup> string) \<Rightarrow> string \<Rightarrow> piece \<Rightarrow> piece" where
  "fill_piece data k p = (if p = Mark k then Literal (data_get data k) else p)"

section \<open>Document generator (services/document\_generator.py)\<close>

text \<open>
  The two programs outside the repository are parameters: what LibreOffice does to the file
  system and the status it exits with (or the error of not starting it), and the page images
  pdf2image renders from a PDF path.
\<close>

record env =
  libreoffice :: "world \<Rightarrow> string \<Rightarrow> string \<Rightarrow> (exn + int) \<times> world"
  convert_from_path :: "world \<Rightarrow> string \<Rightarrow> exn + image list"

definition libreoffice_cmd :: "string \<Rightarrow> string \<Rightarrow> string list" where
  "libreoffice_cmd outdir docx_path =
     [''libreoffice'', ''--headless'', ''--convert-to'', ''pdf'', ''--outdir'', outdir, docx_path]"

definition convert_docx_to_pdf :: "env \<Rightarrow> world \<Rightarrow> string \<Rightarrow> string \<Rightarrow> (exn + unit) \<times> world" where
  "convert_docx_to_pdf ev w docx_path pdf_path =
     (case libreoffice ev w (os_path_dirname pdf_path) docx_path of
        (Inl e, w1) \<Rightarrow> (Inl e, w1)
      | (Inr rc, w1) \<Rightarrow>
          if rc \<noteq> 0
          then (Inl (CalledProcessError (libreoffice_cmd (os_path_dirname pdf_path) docx_path) rc), w1)
          else let generated_pdf = py_replace docx_path ''.docx'' ''.pdf'' in
               if generated_pdf \<noteq> pdf_path then os_rename w1 generated_pdf pdf_path
               else (Inr (), w1))"

definition generate_a4 :: "env \<Rightarrow> world \<Rightarrow> string \<Rightarrow> (string \<rightharpoonup> string) \<Rightarrow> string \<Rightarrow> (exn + string) \<times> world" where
  "generate_a4 ev w temp_storage data project_name =
     (let docx_path = os_path_join temp_storage (project_name @ ''_a4.docx'');
          pdf_path = os_path_join temp_storage (project_name @ ''_a4.pdf'')
      in case process_template w ''a4'' data docx_path of
           (Inl e, w1) \<Rightarrow> (Inl e, w1)
         | (Inr p, w1) \<Rightarrow>
             (case convert_docx_to_pdf ev w1 docx_path pdf_path of
                (Inl e, w2) \<Rightarrow> (Inl e, w2)
              | (Inr u, w2) \<Rightarrow> (Inr (project_name @ ''_a4.pdf''), w2)))"

definition generate_4x1 :: "env \<Rightarrow> world \<Rightarrow> string \<Rightarrow> (string \<rightharpoonup> string) \<Rightarrow> string \<Rightarrow> (exn + string) \<times> world" where
  "generate_4x1 ev w temp_storage data project_name =
     (let docx_path = os_path_join temp_storage (project_name @ ''_4x1.docx'');
          pdf_path = os_path_join temp_storage (project_name @ ''_4x1.pdf'')
      in case process_template w ''4x1'' data docx_path of
           (Inl e, w1) \<Rightarrow> (Inl e, w1)
         | (Inr p, w1) \<Rightarrow>
             (case convert_docx_to_pdf ev w1 docx_path pdf_path of
                (Inl e, w2) \<Rightarrow> (Inl e, w2)
              | (Inr u, w2) \<Rightarrow> (Inr (project_name @ ''_4x1.pdf''), w2)))"

text \<open>Pillow's \<open>convert\<close>, \<open>resize\<close> and \<open>save\<close>.\<close>

definition img_convert :: "image \<Rightarrow> string \<Rightarrow> image" where
  "img_convert img m = img\<lparr>img_mode := m\<rparr>"

definition img_resize :: "image \<Rightarrow> int \<times> int \<Rightarrow> image" where
  "img_resize img sz = img\<lparr>img_size := sz\<rparr>"

definition img_save :: "world \<Rightarrow> image \<Rightarrow> string \<Rightarrow> (exn + unit) \<times> world" where
  "img_save w img p = write_file w p (Tiff img)"

text \<open>
  reportlab's canvas: the file name and page size given to the constructor, the images drawn
  on the page in progress, and the finished pages.  \<open>save\<close> ends the page in progress when
  something was drawn on it, then writes the file.
\<close>

record canvas =
  c_filename :: string
  c_pagesize :: "int \<times> int"
  c_code :: "drawn_image list"
  c_pages :: "pdf_page list"

definition Canvas :: "string \<Rightarrow> int \<times> int \<Rightarrow> canvas" where
  "Canvas fname pagesize = \<lparr>c_filename = fname, c_pagesize = pagesize, c_code = [], c_pages = []\<rparr>"

definition drawImage :: "world \<Rightarrow> canvas \<Rightarrow> string \<Rightarrow> int \<Rightarrow> int \<Rightarrow> int \<Rightarrow> int \<Rightarrow> exn + canvas" where
  "drawImage w c p x y width height =
     (case read_file w p of
        Inl e \<Rightarrow> Inl e
      | Inr (Tiff img) \<Rightarrow>
          Inr (c\<lparr>c_code := c_code c @
                 [\<lparr>di_image = img, di_x = x, di_y = y, di_width = width, di_height = height\<rparr>]\<rparr>)
      | Inr other \<Rightarrow> Inl (LibraryError (''cannot identify image file '' @ p)))"

definition showPage :: "canvas \<Rightarrow> canvas" where
  "showPage c =
     c\<lparr>c_pages := c_pages c @ [\<lparr>page_size = c_pagesize c, page_images = c_code c\<rparr>], c_code := []\<rparr>"

definition canvas_save :: "world \<Rightarrow> canvas \<Rightarrow> (exn + unit) \<times> world" where
  "canvas_save w c =
     (let c' = (if c_code c \<noteq> [] then showPage c else c)
      in write_file w (c_filename c') (Pdf (c_pages c')))"

definition generate_gigantografia ::
  "env \<Rightarrow> world \<Rightarrow> string \<Rightarrow> (string \<rightharpoonup> string) \<Rightarrow> string \<Rightarrow> (exn + string) \<times> world" where
  "generate_gigantografia ev w temp_storage data project_name =
     (let docx_path = os_path_join temp_storage (project_name @ ''_giga_temp.docx'');
          pdf_temp_path = os_path_join temp_storage (project_name @ ''_giga_temp.pdf'');
          pdf_final_path = os_path_join temp_storage (project_name @ ''_gigantografia.pdf'')
      in case process_template w ''a4'' data docx_path of
           (Inl e, w1) \<Rightarrow> (Inl e, w1)
         | (Inr p, w1) \<Rightarrow>
      (case convert_docx_to_pdf ev w1 docx_path pdf_temp_path of
           (Inl e, w2) \<Rightarrow> (Inl e, w2)
         | (Inr u, w2) \<Rightarrow>
      (case convert_from_path ev w2 pdf_temp_path of
           Inl e \<Rightarrow> (Inl e, w2)
         | Inr images \<Rightarrow>
      (case py_index images 0 of
           Inl e \<Rightarrow> (Inl e, w2)
         | Inr img0 \<Rightarrow>
       let img = (if img_mode img0 \<noteq> ''CMYK'' then img_convert img0 ''CMYK'' else img0);
           target_size = (11811, 17717);
           img_resized = img_resize img target_size;
           c = Canvas pdf_final_path (11811, 17717);
           temp_img_path = os_path_join temp_storage (project_name @ ''_temp.tiff'')
       in
      (case img_save w2 img_resized temp_img_path of
           (Inl e, w3) \<Rightarrow> (Inl e, w3)
         | (Inr u, w3) \<Rightarrow>
      (case drawImage w3 c temp_img_path 0 0 11811 17717 of
           Inl e \<Rightarrow> (Inl e, w3)
         | Inr c1 \<Rightarrow>
      (case canvas_save w3 c1 of
           (Inl e, w4) \<Rightarrow> (Inl e, w4)
         | (Inr u, w4) \<Rightarrow>
      (case os_remove w4 temp_img_path of
           (Inl e, w5) \<Rightarrow> (Inl e, w5)
         | (Inr u, w5) \<Rightarrow>
      (case os_remove w5 pdf_temp_path of
           (Inl e, w6) \<Rightarrow> (Inl e, w6)
         | (Inr u, w6) \<Rightarrow>
      (case os_remove w6 docx_path of
           (Inl e, w7) \<Rightarrow> (Inl e, w7)
         | (Inr u, w7) \<Rightarrow> (Inr (project_name @ ''_gigantografia.pdf''), w7)))))))))))"

text \<open>
  Python's \<open>round\<close> to the nearest integer, ties to the even one; the source's comment
  derives the target size from 100 cm by 150 cm at 300 DPI with it.
\<close>

definition py_round :: "real \<Rightarrow> int" where
  "py_round x =
     (let f = \<lfloor>x\<rfloor>
      in if x - of_int f < 1 / 2 then f
         else if 1 / 2 < x - of_int f then f + 1
         else if even f then f else f + 1)"

record DocumentInfo =
  doc_type :: string
  filename :: string
  status :: string
  doc_message :: "string option"

definition generate_all ::
  "env \<Rightarrow> world \<Rightarrow> string \<Rightarrow> (string \<rightharpoonup> string) \<Rightarrow> string \<Rightarrow> DocumentInfo list \<times> world" where
  "generate_all ev w temp_storage data project_name =
     (let results0 = [];
          (r1, w1) = generate_a4 ev w temp_storage data project_name;
          results1 = results0 @
            [case r1 of
               Inr a4_filename \<Rightarrow>
                 \<lparr>doc_type = ''a4'', filename = a4_filename, status = ''success'', doc_message = None\<rparr>
             | Inl e \<Rightarrow>
                 \<lparr>doc_type = ''a4'', filename = [], status = ''error'', doc_message = Some (str_exn e)\<rparr>];
          (r2, w2) = generate_4x1 ev w1 temp_storage data project_name;
          results2 = results1 @
            [case r2 of
               Inr format_4x1_filename \<Rightarrow>
                 \<lparr>doc_type = ''4x1'', filename = format_4x1_filename, status = ''success'',
                  doc_message = None\<rparr>
             | Inl e \<Rightarrow>
                 \<lparr>doc_type = ''4x1'', filename = [], status = ''error'', doc_message = Some (str_exn e)\<rparr>];
          (r3, w3) = generate_gigantografia ev w2 temp_storage data project_name;
          results3 = results2 @
            [case r3 of
               Inr giga_filename \<Rightarrow>
                 \<lparr>doc_type = ''gigantografia'', filename = giga_filename, status = ''success'',
                  doc_message = None\<rparr>
             | Inl e \<Rightarrow>
                 \<lparr>doc_type = ''gigantografia'', filename = [], status = ''error'',
                  doc_message = Some (str_exn e)\<rparr>]
      in (results3, w3))"

text \<open>The three variants of the specification and the suffix each one is recorded under.\<close>

datatype variant = Compact | Banner | Large_format

fun variant_suffix :: "variant \<Rightarrow> string" where
  "variant_suffix Compact = ''a4''"
| "variant_suffix Banner = ''4x1''"
| "variant_suffix Large_format = ''gigantografia''"

fun variant_index :: "variant \<Rightarrow> nat" where
  "variant_index Compact = 0"
| "variant_index Banner = 1"
| "variant_index Large_format = 2"

section \<open>File service (services/file\_service.py)\<close>

definition get_file_path :: "world \<Rightarrow> string \<Rightarrow> string \<Rightarrow> string option" where
  "get_file_path w storage_path fname =
     (let file_path = os_path_join storage_path fname
      in if os_path_exists w file_path then Some file_path else None)"

text \<open>
  The loop of \<open>cleanup_old_files\<close> over the directory listing.  The printed lines are
  collected; an error outside the \<open>try\<close> ends the loop.
\<close>

fun cleanup_loop ::
  "string \<Rightarrow> xdbl \<Rightarrow> string list \<Rightarrow> world \<Rightarrow> string list \<Rightarrow> (exn + unit) \<times> world \<times> string list" where
  "cleanup_loop storage_path cutoff [] w out = (Inr (), w, out)"
| "cleanup_loop storage_path cutoff (fname # rest) w out =
     (let file_path = os_path_join storage_path fname
      in if os_path_isfile w file_path then
           (case os_path_getmtime w file_path of
              Inl e \<Rightarrow> (Inl e, w, out)
            | Inr file_age \<Rightarrow>
                if float_lt file_age cutoff then
                  (case os_remove w file_path of
                     (Inl e, w') \<Rightarrow>
                       cleanup_loop storage_path cutoff rest w'
                         (out @ [''Error eliminando '' @ fname @ '': '' @ str_exn e])
                   | (Inr u, w') \<Rightarrow> cleanup_loop storage_path cutoff rest w' out)
                else cleanup_loop storage_path cutoff rest w out)
         else cleanup_loop storage_path cutoff rest w out)"

definition cleanup_old_files :: "world \<Rightarrow> string \<Rightarrow> int \<Rightarrow> (exn + unit) \<times> world \<times> string list" where
  "cleanup_old_files w storage_path cleanup_hours =
     (let now = clock w
      in case float_sub_int now (cleanup_hours * 3600) of
           Inl e \<Rightarrow> (Inl e, w, [])
         | Inr cutoff \<Rightarrow>
             (case os_listdir w storage_path of
                Inl e \<Rightarrow> (Inl e, w, [])
              | Inr names \<Rightarrow> cleanup_loop storage_path cutoff names w []))"

text \<open>
  What the specification speaks of: a regular file, or any entry, of a given name directly in
  the storage root; a regular file directly in the root whose time stamp is less than a
  cutoff; the files a sweep finds too old, by the cutoff it computes from its clock reading; a
  file the system refuses to unlink.
\<close>

definition direct_file :: "world \<Rightarrow> string \<Rightarrow> string \<Rightarrow> bool" where
  "direct_file w storage_path fname =
     (case resolve w storage_path of
        None \<Rightarrow> False
      | Some d \<Rightarrow> is_dir (files w) d \<and> valid_name fname
          \<and> (case map_of (files w) (d @ [fname]) of Some (File t lk c) \<Rightarrow> True | _ \<Rightarrow> False))"

definition direct_entry :: "world \<Rightarrow> string \<Rightarrow> string \<Rightarrow> bool" where
  "direct_entry w storage_path fname =
     (case resolve w storage_path of
        None \<Rightarrow> False
      | Some d \<Rightarrow> is_dir (files w) d \<and> valid_name fname \<and> map_of (files w) (d @ [fname]) \<noteq> None)"

definition older_than :: "world \<Rightarrow> string \<Rightarrow> xdbl \<Rightarrow> location \<Rightarrow> bool" where
  "older_than w storage_path cutoff k =
     (case resolve w storage_path of
        None \<Rightarrow> False
      | Some d \<Rightarrow> is_dir (files w) d \<and> k \<noteq> [] \<and> butlast k = d \<and> valid_name (last k)
          \<and> (case map_of (files w) k of
                Some (File t lk c) \<Rightarrow> float_lt t cutoff
              | _ \<Rightarrow> False))"

definition old_file :: "world \<Rightarrow> string \<Rightarrow> int \<Rightarrow> location \<Rightarrow> bool" where
  "old_file w storage_path hours k =
     (case float_sub_int (clock w) (hours * 3600) of
        Inl e \<Rightarrow> False
      | Inr cutoff \<Rightarrow> older_than w storage_path cutoff k)"

definition unlink_refused :: "world \<Rightarrow> location \<Rightarrow> bool" where
  "unlink_refused w k = (case map_of (files w) k of Some (File t lk c) \<Rightarrow> lk | _ \<Rightarrow> False)"

section \<open>Frontend session store (stores/session.js) and route guard (router/index.js)\<close>

text \<open>
  The store holds two refs whose contents are arbitrary JavaScript values; the operations
  assign whatever the caller passes.  Only the primitive values that can reach the store are
  modelled.
\<close>

datatype jsval = JNull | JUndefined | JBool bool | JNum int | JStr string

fun truthy :: "jsval \<Rightarrow> bool" where
  "truthy JNull = False"
| "truthy JUndefined = False"
| "truthy (JBool b) = b"
| "truthy (JNum n) = (n \<noteq> 0)"
| "truthy (JStr s) = (s \<noteq> [])"

definition js_and :: "jsval \<Rightarrow> jsval \<Rightarrow> jsval" where
  "js_and a b = (if truthy a then b else a)"

definition js_not :: "jsval \<Rightarrow> jsval" where
  "js_not a = JBool (\<not> truthy a)"

definition js_strict_ne :: "jsval \<Rightarrow> jsval \<Rightarrow> jsval" where
  "js_strict_ne a b = JBool (a \<noteq> b)"

record session_store =
  sessionId :: jsval
  authenticated_ref :: jsval

definition useSessionStore :: session_store where
  "useSessionStore = \<lparr>sessionId = JNull, authenticated_ref = JBool False\<rparr>"

definition isAuthenticated :: "session_store \<Rightarrow> jsval" where
  "isAuthenticated s = js_and (authenticated_ref s) (js_strict_ne (sessionId s) JNull)"

definition setSession :: "jsval \<Rightarrow> session_store \<Rightarrow> session_store" where
  "setSession ident s = s\<lparr>sessionId := ident\<rparr>"

definition setAuthenticated :: "jsval \<Rightarrow> session_store \<Rightarrow> session_store" where
  "setAuthenticated v s = s\<lparr>authenticated_ref := v\<rparr>"

definition clearSession :: "session_store \<Rightarrow> session_store" where
  "clearSession s = s\<lparr>sessionId := JNull, authenticated_ref := JBool False\<rparr>"

datatype store_op = SetSession jsval | SetAuthenticated jsval | ClearSession

fun apply_store_op :: "session_store \<Rightarrow> store_op \<Rightarrow> session_store" where
  "apply_store_op s (SetSession ident) = setSession ident s"
| "apply_store_op s (SetAuthenticated v) = setAuthenticated v s"
| "apply_store_op s ClearSession = clearSession s"

definition run_store_ops :: "store_op list \<Rightarrow> session_store" where
  "run_store_ops ops = foldl apply_store_op useSessionStore ops"

text \<open>The three routes; only the generator route carries \<open>meta.requiresAuth\<close>.\<close>

datatype route = Welcome | Login | Generator

fun requiresAuth :: "route \<Rightarrow> jsval" where
  "requiresAuth Welcome = JUndefined"
| "requiresAuth Login = JUndefined"
| "requiresAuth Generator = JBool True"

datatype navigation = Next | NextLogin

definition beforeEach :: "route \<Rightarrow> session_store \<Rightarrow> navigation" where
  "beforeEach to s =
     (if truthy (js_and (requiresAuth to) (js_not (isAuthenticated s))) then NextLogin else Next)"

section \<open>Sample inputs for the closed instances\<close>

definition sample_doc :: document where
  "sample_doc =
     \<lparr>paragraphs = [[\<lparr>run_text = ''Fecha: {{fecha_evento}} {{referencia_evento}}'', run_format = ''bold''\<rparr>]],
      tables = [[[[[\<lparr>run_text = ''{{hora_evento}} en {{lugar_evento}}'', run_format = ''italic''\<rparr>]]]]]\<rparr>"

definition sample_data :: "string \<rightharpoonup> string" where
  "sample_data = [''fecha_evento'' \<mapsto> ''15 de Diciembre'', ''hora_evento'' \<mapsto> ''7:00 PM'',
                  ''lugar_evento'' \<mapsto> ''Auditorio Central'', ''referencia_evento'' \<mapsto> '''']"

definition banner_world :: world where
  "banner_world =
     \<lparr>files = [([''tmp''], Dir), ([''Formato 4x1.docx''], File (Dbl 5 0) False (Docx sample_doc))],
      cwd = [], clock = Dbl 100 0\<rparr>"

definition idle_env :: env where
  "idle_env = \<lparr>libreoffice = (\<lambda>w outdir docx_path. (Inr 0, w)),
               convert_from_path = (\<lambda>w p. Inr [])\<rparr>"


definition splice_data :: "string \<rightharpoonup> string" where
  "splice_data = [''fecha_evento'' \<mapsto> ''_'', ''hora_evento'' \<mapsto> ''7:00 PM'',
                  ''lugar_evento'' \<mapsto> ''Auditorio Central'', ''referencia_evento'' \<mapsto> [] ]"

definition cascade_data :: "string \<rightharpoonup> string" where
  "cascade_data = [''fecha_evento'' \<mapsto> ''{{hora_evento}}'', ''hora_evento'' \<mapsto> ''7:00 PM'',
                   ''lugar_evento'' \<mapsto> ''Auditorio Central'', ''referencia_evento'' \<mapsto> '''']"

definition store_world :: world where
  "store_world =
     \<lparr>files = [([''storage''], Dir),
               ([''secret.pdf''], File (Dbl 10 0) False (Bytes ''s'')),
               ([''storage'', ''sub''], Dir),
               ([''storage'', ''busy.pdf''], File (Dbl 20 0) True (Bytes ''b'')),
               ([''storage'', ''old.pdf''], File (Dbl 10 0) False (Bytes ''a'')),
               ([''storage'', ''new.pdf''], File (Dbl 90000 0) False (Bytes ''c''))],
      cwd = [], clock = Dbl 100000 0\<rparr>"

definition letter_world :: world where
  "letter_world =
     \<lparr>files = [([''tmp''], Dir), ([''Formato a4.docx''], File (Dbl 5 0) False (Docx sample_doc))],
      cwd = [], clock = Dbl 100 0\<rparr>"

definition office_env :: env where
  "office_env =
     \<lparr>libreoffice = (\<lambda>w outdir docx_path.
         (Inr 0, snd (write_file w (py_replace docx_path ''.docx'' ''.pdf'') (Bytes ''%PDF'')))),
      convert_from_path = (\<lambda>w p. Inr [\<lparr>img_mode = ''RGB'', img_size = (2480, 3508)\<rparr>])\<rparr>"


definition blank_env :: env where
  "blank_env = office_env\<lparr>convert_from_path := (\<lambda>w p. Inr [])\<rparr>"

definition raster_env :: env where
  "raster_env = idle_env\<lparr>convert_from_path := (\<lambda>w p. Inr [\<lparr>img_mode = ''RGB'', img_size = (2480, 3508)\<rparr>])\<rparr>"

section \<open>Session store: the computed flag\<close>

text \<open>
  C10.  After every sequence of setSession, setAuthenticated and clearSession, starting from
  the initial store, isAuthenticated is truthy exactly when the authenticated ref is truthy and
  sessionId is not null (and it is the boolean true exactly when the ref holds a truthy value
  and sessionId is not null).  Setting authenticated to true while sessionId is null leaves it
  false; after clearSession it is false and the route guard redirects a navigation to the
  generator route to the login view.
\<close>

theorem isAuthenticated_iff:
  fixes ops :: "store_op list"
  defines "s \<equiv> run_store_ops ops"
  shows "(truthy (isAuthenticated s) \<longleftrightarrow> truthy (authenticated_ref s) \<and> sessionId s \<noteq> JNull)
       \<and> (isAuthenticated s = JBool True \<longleftrightarrow> truthy (authenticated_ref s) \<and> sessionId s \<noteq> JNull)
       \<and> (sessionId s = JNull \<longrightarrow> isAuthenticated (setAuthenticated (JBool True) s) = JBool False)
       \<and> isAuthenticated (clearSession s) = JBool False
       \<and> beforeEach Generator (clearSession s) = NextLogin"
  by (auto simp: isAuthenticated_def js_and_def js_strict_ne_def js_not_def
        setAuthenticated_def clearSession_def beforeEach_def)

theorem isAuthenticated_iff_witness:
  "sessionId (run_store_ops [SetAuthenticated (JBool True)]) = JNull
   \<and> isAuthenticated (setAuthenticated (JBool True) (run_store_ops [SetAuthenticated (JBool True)])) = JBool False
   \<and> truthy (authenticated_ref (run_store_ops [SetSession (JStr ''abc''), SetAuthenticated (JBool True)]))
   \<and> sessionId (run_store_ops [SetSession (JStr ''abc''), SetAuthenticated (JBool True)]) \<noteq> JNull
   \<and> isAuthenticated (run_store_ops [SetSession (JStr ''abc''), SetAuthenticated (JBool True)]) = JBool True"
  using isAuthenticated_iff [of "[SetAuthenticated (JBool True)]"]
    isAuthenticated_iff [of "[SetSession (JStr ''abc''), SetAuthenticated (JBool True)]"]
  by (simp add: run_store_ops_def useSessionStore_def setSession_def setAuthenticated_def)

section \<open>Auth service: the question state machine\<close>

lemma normalize_lima: "normalize_text ''lima'' = ''lima''"
  by code_simp

lemma normalize_esperanza: "normalize_text ''esperanza viva'' = ''esperanza viva''"
  by code_simp

text \<open>The example of the repository's unit test: inverted exclamation mark, comma, capitals.\<close>

lemma normalize_hola:
  "normalize_text ([CHR 0xC2, CHR 0xA1] @ ''Hola, Mundo!'') = ''hola mundo''"
  by code_simp

text \<open>
  For a request whose question number is 1, 2 or 3 the code moves the stored state by the
  request's number alone: a correct answer to 1 or 2 stores the next number, a correct answer
  to 3 sets the flag, an incorrect answer stores 1.
\<close>

lemma validate_answer_in_range:
  assumes "sessions svc sid = Some sd" and "question_number \<in> {1, 2, 3}"
  shows "sessions (snd (validate_answer svc sid question_number ans)) sid =
     Some (if normalize_text ans = answer (security_questions ! nat (question_number - 1))
           then (if question_number = 3 then sd\<lparr>authenticated := True\<rparr>
                 else sd\<lparr>current_question := question_number + 1\<rparr>)
           else sd\<lparr>current_question := 1\<rparr>)"
  using assms
  by (auto simp: validate_answer_def py_index_def security_questions_def
        set_current_question_def Let_def)

text \<open>
  C9.  The code at the failing inputs.  On a fresh session (question 1, not authenticated) a
  request for question number -1 with the answer of question 2 is accepted and stores
  current question 0; a request for question number 3 with the answer of question 3 sets
  the authenticated flag although the session is still at question 1.
\<close>

theorem validate_answer_ignores_current_question:
  "sessions (snd (validate_answer (snd (create_session auth_init ''s1'')) ''s1'' (- 1) ''lima'')) ''s1''
     = Some \<lparr>session_id = ''s1'', current_question = 0, authenticated = False\<rparr>
   \<and> sessions (snd (validate_answer (snd (create_session auth_init ''s1'')) ''s1'' 3 ''esperanza viva'')) ''s1''
     = Some \<lparr>session_id = ''s1'', current_question = 1, authenticated = True\<rparr>"
  by (simp add: validate_answer_def create_session_def auth_init_def py_index_def
        security_questions_def set_current_question_def normalize_lima normalize_esperanza)

section \<open>Generation orchestrator: three results, failures isolated\<close>

text \<open>
  C1.  For every environment, file system, field set and project name, generate_all returns
  three entries typed a4, 4x1, gigantografia in this order.  Each entry is decided by its own
  generator, run in the file system the previous generator left behind, whether or not that
  one failed: an exception of the generator gives the entry with status error, an empty file
  name and the exception's text as message; a returned file name gives the success entry.
  generate_all itself returns a plain list: nothing is raised.
\<close>

theorem generate_all_three_results:
  fixes ev :: env and w :: world and ts :: string and data :: "string \<rightharpoonup> string" and P :: string
  defines "a \<equiv> generate_a4 ev w ts data P"
  defines "b \<equiv> generate_4x1 ev (snd a) ts data P"
  defines "c \<equiv> generate_gigantografia ev (snd b) ts data P"
  defines "res \<equiv> fst (generate_all ev w ts data P)"
  shows "length res = 3
       \<and> map doc_type res = [''a4'', ''4x1'', ''gigantografia'']
       \<and> (\<forall>e. fst a = Inl e \<longrightarrow>
             res ! 0 = \<lparr>doc_type = ''a4'', filename = [], status = ''error'', doc_message = Some (str_exn e)\<rparr>)
       \<and> (\<forall>f. fst a = Inr f \<longrightarrow>
             res ! 0 = \<lparr>doc_type = ''a4'', filename = f, status = ''success'', doc_message = None\<rparr>)
       \<and> (\<forall>e. fst b = Inl e \<longrightarrow>
             res ! 1 = \<lparr>doc_type = ''4x1'', filename = [], status = ''error'', doc_message = Some (str_exn e)\<rparr>)
       \<and> (\<forall>f. fst b = Inr f \<longrightarrow>
             res ! 1 = \<lparr>doc_type = ''4x1'', filename = f, status = ''success'', doc_message = None\<rparr>)
       \<and> (\<forall>e. fst c = Inl e \<longrightarrow>
             res ! 2 = \<lparr>doc_type = ''gigantografia'', filename = [], status = ''error'',
                        doc_message = Some (str_exn e)\<rparr>)
       \<and> (\<forall>f. fst c = Inr f \<longrightarrow>
             res ! 2 = \<lparr>doc_type = ''gigantografia'', filename = f, status = ''success'',
                        doc_message = None\<rparr>)
       \<and> snd (generate_all ev w ts data P) = snd c"
  unfolding res_def c_def b_def a_def generate_all_def
  by (simp add: Let_def split: prod.splits sum.splits)

lemma banner_a4: "fst (generate_a4 idle_env banner_world ''tmp'' sample_data ''P'')
    = Inl (FileNotFoundError ''Plantilla no encontrada: ./Formato a4.docx'')"
  by code_simp

lemma banner_a4_world: "snd (generate_a4 idle_env banner_world ''tmp'' sample_data ''P'') = banner_world"
  by code_simp

lemma banner_4x1: "fst (generate_4x1 idle_env banner_world ''tmp'' sample_data ''P'') = Inr ''P_4x1.pdf''"
  by code_simp

theorem generate_all_three_results_witness:
  "fst (generate_a4 idle_env banner_world ''tmp'' sample_data ''P'')
     = Inl (FileNotFoundError ''Plantilla no encontrada: ./Formato a4.docx'')
   \<and> fst (generate_all idle_env banner_world ''tmp'' sample_data ''P'') ! 0
     = \<lparr>doc_type = ''a4'', filename = [], status = ''error'',
        doc_message = Some ''Plantilla no encontrada: ./Formato a4.docx''\<rparr>
   \<and> fst (generate_4x1 idle_env (snd (generate_a4 idle_env banner_world ''tmp'' sample_data ''P''))
            ''tmp'' sample_data ''P'') = Inr ''P_4x1.pdf''
   \<and> fst (generate_all idle_env banner_world ''tmp'' sample_data ''P'') ! 1
     = \<lparr>doc_type = ''4x1'', filename = ''P_4x1.pdf'', status = ''success'', doc_message = None\<rparr>"
  using generate_all_three_results [of idle_env banner_world "''tmp''" sample_data "''P''"]
  by (simp add: banner_a4 banner_a4_world banner_4x1)

section \<open>File names of the variants\<close>

lemma generate_a4_filename:
  "generate_a4 ev w ts data P = (Inr f, w') \<Longrightarrow> f = P @ ''_a4.pdf''"
  by (auto simp: generate_a4_def Let_def split: prod.splits sum.splits)

lemma generate_4x1_filename:
  "generate_4x1 ev w ts data P = (Inr f, w') \<Longrightarrow> f = P @ ''_4x1.pdf''"
  by (auto simp: generate_4x1_def Let_def split: prod.splits sum.splits)

lemma generate_gigantografia_filename:
  "generate_gigantografia ev w ts data P = (Inr f, w') \<Longrightarrow> f = P @ ''_gigantografia.pdf''"
  by (auto simp: generate_gigantografia_def Let_def split: prod.splits sum.splits)

lemma inj_variant_suffix: "inj variant_suffix"
proof (rule injI)
  fix x y assume "variant_suffix x = variant_suffix y"
  then show "x = y" by (cases x; cases y) simp_all
qed

text \<open>
  C4.  In the results of generate_all, the entry of variant v has type suffix(v), and when its
  status is success its file name is the project name, an underscore, suffix(v) and .pdf; the
  suffixes a4, 4x1 and gigantografia of compact, banner and large format are pairwise distinct.
\<close>

theorem filename_convention:
  fixes ev :: env and w :: world and ts :: string and data :: "string \<rightharpoonup> string" and P :: string
  defines "res \<equiv> fst (generate_all ev w ts data P)"
  shows "(\<forall>v. doc_type (res ! variant_index v) = variant_suffix v
            \<and> (status (res ! variant_index v) = ''success'' \<longrightarrow>
                 filename (res ! variant_index v) = P @ ''_'' @ variant_suffix v @ ''.pdf''))
       \<and> inj variant_suffix"
proof -
  have "doc_type (res ! variant_index v) = variant_suffix v
        \<and> (status (res ! variant_index v) = ''success'' \<longrightarrow>
             filename (res ! variant_index v) = P @ ''_'' @ variant_suffix v @ ''.pdf'')" for v
    unfolding res_def generate_all_def
    by (cases v)
       (auto simp: Let_def split: prod.splits sum.splits
          dest: generate_a4_filename generate_4x1_filename generate_gigantografia_filename)
  then show ?thesis using inj_variant_suffix by blast
qed

lemma banner_all_status:
  "status (fst (generate_all idle_env banner_world ''tmp'' sample_data ''P'') ! 1) = ''success''"
  by code_simp

theorem filename_convention_witness:
  "status (fst (generate_all idle_env banner_world ''tmp'' sample_data ''P'') ! variant_index Banner) = ''success''
   \<and> filename (fst (generate_all idle_env banner_world ''tmp'' sample_data ''P'') ! variant_index Banner)
       = ''P_4x1.pdf''"
  using filename_convention [of idle_env banner_world "''tmp''" sample_data "''P''"] banner_all_status
  by (auto dest: spec [of _ Banner])

section \<open>Field substitution\<close>

lemma replace_from_no_open:
  "CHR ''{'' \<notin> set s \<Longrightarrow>
   replace_from (CHR ''{'' # m) v (s @ rest) = s @ replace_from (CHR ''{'' # m) v rest"
  by (induction s) auto

lemma replace_from_hit:
  "m \<noteq> [] \<Longrightarrow> replace_from m v (m @ rest) = v @ replace_from m v rest"
  by (cases m) auto

lemma replace_from_absent: "\<not> py_in m t \<Longrightarrow> replace_from m v t = t"
  by (induction t) auto

lemma replace_from_other_marker:
  assumes "k \<in> set marker_keys" "k' \<in> set marker_keys" "k' \<noteq> k"
  shows "replace_from (marker_of k) v (marker_of k' @ rest) = marker_of k' @ replace_from (marker_of k) v rest"
proof -
  from assms(1) have k: "k = ''fecha_evento'' \<or> k = ''hora_evento'' \<or> k = ''lugar_evento''
      \<or> k = ''referencia_evento''"
    by (simp add: marker_keys_def)
  from assms(2) have k': "k' = ''fecha_evento'' \<or> k' = ''hora_evento'' \<or> k' = ''lugar_evento''
      \<or> k' = ''referencia_evento''"
    by (simp add: marker_keys_def)
  from k k' assms(3) show ?thesis
    by (elim disjE; simp add: marker_of_def)
qed

lemma fill_piece_simps [simp]:
  "fill_piece data k (Literal s) = Literal s"
  "fill_piece data k (Mark k') = (if k' = k then Literal (data_get data k) else Mark k')"
  by (simp_all add: fill_piece_def)

lemma replace_from_render:
  assumes "k \<in> set marker_keys" "list_all piece_ok ps"
  shows "replace_from (marker_of k) (data_get data k) (render ps) = render (map (fill_piece data k) ps)"
  using assms(2)
proof (induction ps)
  case Nil
  then show ?case by (simp add: render_def)
next
  case (Cons p ps)
  then have IH: "replace_from (marker_of k) (data_get data k) (render ps) = render (map (fill_piece data k) ps)"
    by simp
  show ?case
  proof (cases p)
    case (Literal s)
    with Cons.prems have "CHR ''{'' \<notin> set s" by (simp add: brace_free_def)
    then have "replace_from (marker_of k) (data_get data k) (s @ render ps)
               = s @ replace_from (marker_of k) (data_get data k) (render ps)"
      using replace_from_no_open [of s "CHR ''{'' # k @ ''}}''"] by (simp add: marker_of_def)
    with IH Literal show ?thesis by (simp add: render_def)
  next
    case (Mark k')
    with Cons.prems have k': "k' \<in> set marker_keys" by simp
    show ?thesis
    proof (cases "k' = k")
      case True
      have "marker_of k \<noteq> []" by (simp add: marker_of_def)
      from replace_from_hit [OF this] IH Mark True show ?thesis
        by (simp add: render_def)
    next
      case False
      from replace_from_other_marker [OF assms(1) k' False] IH Mark False show ?thesis
        by (simp add: render_def)
    qed
  qed
qed

lemma fill_piece_ok:
  "brace_free (data_get data k) \<Longrightarrow> list_all piece_ok ps \<Longrightarrow> list_all piece_ok (map (fill_piece data k) ps)"
proof (induction ps)
  case Nil
  then show ?case by simp
next
  case (Cons p ps)
  then show ?case by (cases p) auto
qed

lemma replace_marker_text:
  "m \<noteq> [] \<Longrightarrow> replace_marker r (m, v) = r\<lparr>run_text := replace_from m v (run_text r)\<rparr>"
  by (simp add: replace_marker_def py_replace_def replace_from_absent)

lemma replace_in_run_text:
  "replace_in_run data r =
     r\<lparr>run_text :=
         replace_from (marker_of ''referencia_evento'') (data_get data ''referencia_evento'')
          (replace_from (marker_of ''lugar_evento'') (data_get data ''lugar_evento'')
            (replace_from (marker_of ''hora_evento'') (data_get data ''hora_evento'')
              (replace_from (marker_of ''fecha_evento'') (data_get data ''fecha_evento'') (run_text r))))\<rparr>"
proof -
  have ne: "marker_of k \<noteq> []" for k by (simp add: marker_of_def)
  show ?thesis
    by (simp add: replace_in_run_def replacements_def marker_keys_def replace_marker_text [OF ne])
qed

lemma fill_all_pieces:
  "list_all piece_ok ps \<Longrightarrow>
   render (map (fill_piece data ''referencia_evento'')
            (map (fill_piece data ''lugar_evento'')
              (map (fill_piece data ''hora_evento'')
                (map (fill_piece data ''fecha_evento'') ps)))) = substituted data ps"
proof (induction ps)
  case Nil
  then show ?case by (simp add: render_def substituted_def)
next
  case (Cons p ps)
  then show ?case
    by (cases p) (auto simp: render_def substituted_def marker_keys_def)
qed

lemma replace_in_run_pieces:
  assumes vals: "\<forall>k \<in> set marker_keys. brace_free (data_get data k)"
    and ok: "list_all piece_ok ps" and rtext: "run_text r = render ps"
  shows "replace_in_run data r = r\<lparr>run_text := substituted data ps\<rparr>"
proof -
  have k1: "''fecha_evento'' \<in> set marker_keys" and k2: "''hora_evento'' \<in> set marker_keys"
    and k3: "''lugar_evento'' \<in> set marker_keys" and k4: "''referencia_evento'' \<in> set marker_keys"
    by (simp_all add: marker_keys_def)
  let ?p1 = "map (fill_piece data ''fecha_evento'') ps"
  let ?p2 = "map (fill_piece data ''hora_evento'') ?p1"
  let ?p3 = "map (fill_piece data ''lugar_evento'') ?p2"
  have ok1: "list_all piece_ok ?p1" using vals k1 by (intro fill_piece_ok [OF _ ok]) blast
  have ok2: "list_all piece_ok ?p2" using vals k2 by (intro fill_piece_ok [OF _ ok1]) blast
  have ok3: "list_all piece_ok ?p3" using vals k3 by (intro fill_piece_ok [OF _ ok2]) blast
  show ?thesis
    unfolding replace_in_run_text rtext
    by (simp only: replace_from_render [OF k1 ok] replace_from_render [OF k2 ok1]
          replace_from_render [OF k3 ok2] replace_from_render [OF k4 ok3] fill_all_pieces [OF ok])
qed

lemma replace_in_run_format: "run_format (replace_in_run data r) = run_format r"
  by (simp add: replace_in_run_text)

lemma replace_in_run_no_marker:
  assumes "\<forall>k \<in> set marker_keys. \<not> py_in (marker_of k) (run_text r)"
  shows "replace_in_run data r = r"
  using assms by (simp add: replace_in_run_text marker_keys_def replace_from_absent)

lemma process_template_ok:
  assumes "templates template_type = Some fname"
    and "read_file w (os_path_join template_dir fname) = Inr (Docx doc)"
    and "write_file w output_path (Docx (fill_document data doc)) = (Inr (), w')"
  shows "process_template w template_type data output_path = (Inr output_path, w')"
proof -
  from assms(2) have "os_path_exists w (os_path_join template_dir fname)"
    by (auto simp: read_file_def os_path_exists_def split: option.splits)
  with assms show ?thesis
    by (simp add: process_template_def load_document_def)
qed

text \<open>
  C3, as the code has it.  When no field value contains a brace, every run whose text consists
  of brace-free literal text and whole markers gets exactly the text with each marker replaced
  by its field value (the empty string for an empty reference), and keeps its formatting.
  process_template applies the replacement to every run of every body paragraph and of every
  paragraph of every cell of every table, and raises nothing once the template is read and
  the filled document can be written.
\<close>

theorem replace_in_runs_substitutes:
  assumes "list_all (\<lambda>k. brace_free (data_get data k)) marker_keys"
  shows "(\<forall>r ps. list_all piece_ok ps \<and> run_text r = render ps \<longrightarrow>
            replace_in_run data r = r\<lparr>run_text := substituted data ps\<rparr>)
       \<and> paragraphs (fill_document data doc) = map (map (replace_in_run data)) (paragraphs doc)
       \<and> tables (fill_document data doc) = map (map (map (map (map (replace_in_run data))))) (tables doc)
       \<and> (\<forall>w template_type fname output_path w'.
            templates template_type = Some fname
            \<and> read_file w (os_path_join template_dir fname) = Inr (Docx doc)
            \<and> write_file w output_path (Docx (fill_document data doc)) = (Inr (), w') \<longrightarrow>
            process_template w template_type data output_path = (Inr output_path, w'))"
proof -
  from assms have "\<forall>k \<in> set marker_keys. brace_free (data_get data k)"
    by (simp add: list_all_iff)
  from replace_in_run_pieces [OF this] process_template_ok [where data = data and doc = doc]
  show ?thesis
    by (simp add: fill_document_def replace_in_runs_def)
qed

lemma letter_template:
  "read_file letter_world (os_path_join template_dir ''Formato a4.docx'') = Inr (Docx sample_doc)"
  by code_simp

lemma letter_write:
  "fst (write_file letter_world ''tmp/out.docx'' (Docx (fill_document sample_data sample_doc))) = Inr ()"
  by code_simp

theorem replace_in_runs_substitutes_witness:
  "list_all (\<lambda>k. brace_free (data_get sample_data k)) marker_keys
   \<and> list_all piece_ok [Literal ''Fecha: '', Mark ''fecha_evento'', Literal '' '', Mark ''referencia_evento'']
   \<and> data_get sample_data ''referencia_evento'' = []
   \<and> replace_in_run sample_data
        \<lparr>run_text = ''Fecha: {{fecha_evento}} {{referencia_evento}}'', run_format = ''bold''\<rparr>
       = \<lparr>run_text = ''Fecha: 15 de Diciembre '', run_format = ''bold''\<rparr>
   \<and> fst (process_template letter_world ''a4'' sample_data ''tmp/out.docx'') = Inr ''tmp/out.docx''"
proof -
  let ?wr = "write_file letter_world ''tmp/out.docx'' (Docx (fill_document sample_data sample_doc))"
  have t: "templates ''a4'' = Some ''Formato a4.docx''" by (simp add: templates_def)
  have wr: "?wr = (Inr (), snd ?wr)" using letter_write by (metis prod.collapse)
  have v: "list_all (\<lambda>k. brace_free (data_get sample_data k)) marker_keys"
    by (simp add: marker_keys_def sample_data_def data_get_def brace_free_def)
  have ok: "list_all piece_ok [Literal ''Fecha: '', Mark ''fecha_evento'', Literal '' '', Mark ''referencia_evento'']"
    by (simp add: marker_keys_def brace_free_def)
  have r: "run_text \<lparr>run_text = ''Fecha: {{fecha_evento}} {{referencia_evento}}'', run_format = ''bold''\<rparr>
            = render [Literal ''Fecha: '', Mark ''fecha_evento'', Literal '' '', Mark ''referencia_evento'']"
    by (simp add: render_def marker_of_def)
  have s: "substituted sample_data
             [Literal ''Fecha: '', Mark ''fecha_evento'', Literal '' '', Mark ''referencia_evento'']
           = ''Fecha: 15 de Diciembre ''"
    by (simp add: substituted_def sample_data_def data_get_def)
  note T = replace_in_runs_substitutes [OF v, of sample_doc]
  from T t letter_template wr
  have p: "process_template letter_world ''a4'' sample_data ''tmp/out.docx'' = (Inr ''tmp/out.docx'', snd ?wr)"
    by blast
  from T ok r
  have "replace_in_run sample_data
          \<lparr>run_text = ''Fecha: {{fecha_evento}} {{referencia_evento}}'', run_format = ''bold''\<rparr>
        = \<lparr>run_text = ''Fecha: {{fecha_evento}} {{referencia_evento}}'', run_format = ''bold''\<rparr>
            \<lparr>run_text := substituted sample_data
              [Literal ''Fecha: '', Mark ''fecha_evento'', Literal '' '', Mark ''referencia_evento'']\<rparr>"
    by blast
  with v ok s p show ?thesis by (simp add: sample_data_def data_get_def)
qed

text \<open>
  C3 as stated fails: the markers are replaced one after the other, so a field value that
  itself contains a marker is rewritten by a later replacement.  With the date field holding
  the time marker, the date marker ends up replaced by the time, not by the date field's value.
  Likewise a brace-free value can complete a marker out of the literal text around it: that
  text is then rewritten too.
\<close>

theorem replace_in_run_cascades:
  "render [Mark ''fecha_evento''] = ''{{fecha_evento}}''
   \<and> substituted cascade_data [Mark ''fecha_evento''] = ''{{hora_evento}}''
   \<and> replace_in_run cascade_data \<lparr>run_text = ''{{fecha_evento}}'', run_format = ''bold''\<rparr>
       = \<lparr>run_text = ''7:00 PM'', run_format = ''bold''\<rparr>
   \<and> render [Literal ''{{hora'', Mark ''fecha_evento'', Literal ''evento}}''] = ''{{hora{{fecha_evento}}evento}}''
   \<and> substituted splice_data [Literal ''{{hora'', Mark ''fecha_evento'', Literal ''evento}}'']
       = ''{{hora_evento}}''
   \<and> replace_in_run splice_data \<lparr>run_text = ''{{hora{{fecha_evento}}evento}}'', run_format = ''bold''\<rparr>
       = \<lparr>run_text = ''7:00 PM'', run_format = ''bold''\<rparr>"
  by code_simp

section \<open>Paths and the file table\<close>

lemma split_sep_nonempty: "split_sep s \<noteq> []"
  by (induction s) (auto split: list.splits)

lemma split_sep_slash: "split_sep (a @ CHR ''/'' # b) = split_sep a @ split_sep b"
  by (induction a) (auto split: list.splits simp: split_sep_nonempty)

lemma split_sep_plain: "CHR ''/'' \<notin> set b \<Longrightarrow> split_sep b = [b]"
  by (induction b) auto

lemma split_sep_suffix:
  "CHR ''/'' \<notin> set suf \<Longrightarrow>
   split_sep (j @ suf) = butlast (split_sep j) @ [last (split_sep j) @ suf]"
proof (induction j)
  case Nil
  then show ?case by (simp add: split_sep_plain)
next
  case (Cons c j)
  then show ?case
    by (cases "split_sep j") (auto simp: split_sep_nonempty split: list.splits)
qed

lemma split_sep_no_slash: "c \<in> set (split_sep s) \<Longrightarrow> CHR ''/'' \<notin> set c"
  by (induction s arbitrary: c) (auto split: if_splits list.splits)

lemma walk_append:
  "walk fs l (xs @ ys) = (case walk fs l xs of None \<Rightarrow> None | Some l' \<Rightarrow> walk fs l' ys)"
  by (induction xs arbitrary: l) (auto split: option.splits)

lemma walk_name:
  "valid_name n \<Longrightarrow>
   walk fs l [n] = (if is_dir fs l \<and> map_of fs (l @ [n]) \<noteq> None then Some (l @ [n]) else None)"
  by (auto simp: valid_name_def split: option.splits)

lemma walk_last:
  assumes "walk fs l cs = Some d" "cs \<noteq> []" "valid_name (last cs)"
  shows "d \<noteq> [] \<and> last d = last cs \<and> map_of fs d \<noteq> None"
proof -
  from assms(2) have cs: "cs = butlast cs @ [last cs]" by simp
  from assms(1) obtain l' where "walk fs l' [last cs] = Some d"
    by (subst (asm) cs, simp only: walk_append split: option.splits) auto
  with walk_name [OF assms(3), of fs l'] show ?thesis
    by (auto simp del: walk.simps split: if_splits)
qed

lemma touches_only_sym: "touches_only q fs fs' \<Longrightarrow> touches_only q fs' fs"
  by (auto simp: touches_only_def)

lemma touches_only_is_dir: "touches_only q fs fs' \<Longrightarrow> is_dir fs' k = is_dir fs k"
  by (cases "k = q") (auto simp: touches_only_def is_dir_def node_at_def)

lemma touches_only_walk:
  assumes "touches_only q fs fs'"
  shows "walk fs l cs = Some d \<Longrightarrow> d \<noteq> q \<Longrightarrow> walk fs' l cs = Some d"
proof (induction cs arbitrary: l)
  case Nil
  then show ?case by simp
next
  case (Cons c cs)
  from Cons.prems(1) have dir: "is_dir fs l" by (auto split: if_splits)
  then have dir': "is_dir fs' l" using touches_only_is_dir [OF assms] by simp
  show ?case
  proof (cases "c = [] \<or> c = ''.'' \<or> c = ''..''")
    case True
    with Cons dir dir' show ?thesis by (auto split: if_splits)
  next
    case False
    with Cons.prems(1) dir obtain n where n: "map_of fs (l @ [c]) = Some n"
      and w: "walk fs (l @ [c]) cs = Some d"
      by (auto split: option.splits)
    have neq: "l @ [c] \<noteq> q"
    proof
      assume eq: "l @ [c] = q"
      from assms have nd: "\<not> is_dir fs q" by (auto simp: touches_only_def is_dir_def node_at_def)
      show False
      proof (cases cs)
        case Nil
        with w eq Cons.prems(2) show False by simp
      next
        case (Cons c' cs')
        with w eq nd show False by simp
      qed
    qed
    with assms n have "map_of fs' (l @ [c]) = Some n" by (simp add: touches_only_def)
    moreover from Cons.IH [OF w Cons.prems(2)] have "walk fs' (l @ [c]) cs = Some d" .
    ultimately show ?thesis using False dir' by simp
  qed
qed

lemma map_of_delete_key:
  "map_of (delete_key q fs) k = (if k = q then None else map_of fs k)"
  by (induction fs) (auto simp: delete_key_def)

lemma touches_only_delete:
  "q \<noteq> [] \<Longrightarrow> map_of fs q \<noteq> Some Dir \<Longrightarrow> touches_only q fs (delete_key q fs)"
  by (simp add: touches_only_def map_of_delete_key)

lemma touches_only_put:
  "q \<noteq> [] \<Longrightarrow> map_of fs q \<noteq> Some Dir \<Longrightarrow>
   touches_only q fs ((q, File t lk c) # delete_key q fs)"
  by (simp add: touches_only_def map_of_delete_key)


lemma os_path_join_suffix:
  "s \<noteq> [] \<Longrightarrow> hd s \<noteq> CHR ''/'' \<Longrightarrow> os_path_join a (b @ s) = os_path_join a b @ s"
  by (cases b) (auto simp: os_path_join_def)

lemma resolve_join_name:
  assumes r: "resolve w sp = Some d" and n: "valid_name n"
  shows "resolve w (os_path_join sp n) =
           (if is_dir (files w) d \<and> map_of (files w) (d @ [n]) \<noteq> None then Some (d @ [n]) else None)"
proof -
  from r have sp: "sp \<noteq> []" by (auto simp: resolve_def split: if_splits)
  from n have n1: "n \<noteq> []" and n2: "CHR ''/'' \<notin> set n" by (auto simp: valid_name_def)
  then have n3: "hd n \<noteq> CHR ''/''" by (cases n) auto
  let ?st = "start_of w sp"
  from r sp have w0: "walk (files w) ?st (split_sep sp) = Some d" by (simp add: resolve_def)
  show ?thesis
  proof (cases "last sp = CHR ''/''")
    case True
    with sp have sp': "sp = butlast sp @ ''/''" by (metis append_butlast_last_id)
    have j: "os_path_join sp n = butlast sp @ CHR ''/'' # n"
      using True sp n1 n3 sp' by (simp add: os_path_join_def)
    have s1: "split_sep sp = split_sep (butlast sp) @ [[]]"
      by (subst sp') (simp add: split_sep_slash)
    from w0 [unfolded s1 walk_append]
    have w1: "walk (files w) ?st (split_sep (butlast sp)) = Some d" and dir: "is_dir (files w) d"
      by (auto split: option.splits if_splits)
    have st: "start_of w (os_path_join sp n) = ?st"
      unfolding j using sp True by (cases sp) (auto simp: start_of_def)
    have "resolve w (os_path_join sp n) = walk (files w) ?st (split_sep (butlast sp) @ [n])"
      unfolding resolve_def st by (simp add: j split_sep_slash split_sep_plain [OF n2])
    also have "\<dots> = walk (files w) d [n]" by (simp only: walk_append w1 option.case)
    finally show ?thesis by (simp only: walk_name [OF n])
  next
    case False
    have j: "os_path_join sp n = sp @ CHR ''/'' # n"
      using False sp n1 n3 by (simp add: os_path_join_def)
    have st: "start_of w (os_path_join sp n) = ?st"
      unfolding j using sp by (cases sp) (auto simp: start_of_def)
    have "resolve w (os_path_join sp n) = walk (files w) ?st (split_sep sp @ [n])"
      unfolding resolve_def st by (simp add: j split_sep_slash split_sep_plain [OF n2])
    also have "\<dots> = walk (files w) d [n]" by (simp only: walk_append w0 option.case)
    finally show ?thesis by (simp only: walk_name [OF n])
  qed
qed

lemma lookup_join_name:
  assumes "resolve w sp = Some d" "is_dir (files w) d" "valid_name n"
  shows "lookup_path w (os_path_join sp n) = map_of (files w) (d @ [n])"
  using assms
  by (auto simp: lookup_path_def resolve_join_name node_at_def)

lemma strip_empty_split:
  "\<exists>es. cs = strip_empty cs @ es \<and> (\<forall>c \<in> set es. c = []) \<and> (es = [] \<longleftrightarrow> cs = [] \<or> last cs \<noteq> [])"
proof -
  let ?P = "\<lambda>c::string. c = []"
  have "cs = rev (takeWhile ?P (rev cs) @ dropWhile ?P (rev cs))" by simp
  also have "\<dots> = rev (dropWhile ?P (rev cs)) @ rev (takeWhile ?P (rev cs))" by (rule rev_append)
  finally have a: "cs = rev (dropWhile ?P (rev cs)) @ rev (takeWhile ?P (rev cs))" .
  have b: "\<forall>c \<in> set (rev (takeWhile ?P (rev cs))). c = []" by (auto dest: set_takeWhileD)
  have c: "rev (takeWhile ?P (rev cs)) = [] \<longleftrightarrow> cs = [] \<or> last cs \<noteq> []"
    by (cases "cs = []") (auto simp: takeWhile_eq_Nil_iff hd_rev)
  from a b c show ?thesis unfolding strip_empty_def by blast
qed


lemma strip_empty_id: "cs \<noteq> [] \<Longrightarrow> last cs \<noteq> [] \<Longrightarrow> strip_empty cs = cs"
  using strip_empty_split [of cs] by auto


lemma parent_dir_Inr:
  assumes "parent_dir w p = Inr d"
  shows "p \<noteq> [] \<and> walk (files w) (start_of w p) (butlast (strip_empty (split_sep p))) = Some d
         \<and> is_dir (files w) d"
  using assms by (auto simp: parent_dir_def Let_def split: if_splits option.splits)



lemma resolve_new_Inr:
  assumes "resolve_new w p = Inr q"
  shows "p \<noteq> [] \<and> (\<exists>d. walk (files w) (start_of w p) (butlast (split_sep p)) = Some d
           \<and> is_dir (files w) d \<and> valid_name (last (split_sep p)) \<and> q = d @ [last (split_sep p)])"
proof -
  from assms obtain d where pd: "parent_dir w p = Inr d" and vn: "valid_name (last (split_sep p))"
    and q: "q = d @ [last (split_sep p)]"
    by (auto simp: resolve_new_def split: sum.splits if_splits)
  have "strip_empty (split_sep p) = split_sep p"
    using vn by (intro strip_empty_id) (auto simp: valid_name_def split_sep_nonempty)
  with parent_dir_Inr [OF pd] vn q show ?thesis by simp
qed

section \<open>Format converter\<close>











section \<open>Artifact store: lookup\<close>

text \<open>
  C7, as the code has it.  For a file name that is a single path component (not empty, not
  \<open>.\<close> or \<open>..\<close>, no separator): when a regular file of that name lies directly in the
  storage root, lookup returns the root joined with the name; when the root exists and has no
  entry of that name, lookup returns none.
\<close>

theorem get_file_path_plain_name:
  assumes "valid_name fname"
  shows "(direct_file w storage_path fname \<longrightarrow>
            get_file_path w storage_path fname = Some (os_path_join storage_path fname))
       \<and> (resolve w storage_path \<noteq> None \<and> \<not> direct_entry w storage_path fname \<longrightarrow>
            get_file_path w storage_path fname = None)"
proof (cases "resolve w storage_path")
  case None
  then show ?thesis by (simp add: direct_file_def)
next
  case (Some d)
  from resolve_join_name [OF Some assms] Some assms show ?thesis
    by (auto simp: direct_file_def direct_entry_def get_file_path_def os_path_exists_def
          lookup_path_def node_at_def split: option.splits node.splits)
qed

theorem get_file_path_plain_name_witness:
  "valid_name ''old.pdf'' \<and> direct_file store_world ''storage'' ''old.pdf''
   \<and> get_file_path store_world ''storage'' ''old.pdf'' = Some ''storage/old.pdf''
   \<and> valid_name ''gone.pdf'' \<and> resolve store_world ''storage'' \<noteq> None
   \<and> \<not> direct_entry store_world ''storage'' ''gone.pdf''
   \<and> get_file_path store_world ''storage'' ''gone.pdf'' = None"
proof -
  have v1: "valid_name ''old.pdf''" and v2: "valid_name ''gone.pdf''"
    by (simp_all add: valid_name_def)
  have d1: "direct_file store_world ''storage'' ''old.pdf''" by code_simp
  have r: "resolve store_world ''storage'' \<noteq> None" by code_simp
  have d2: "\<not> direct_entry store_world ''storage'' ''gone.pdf''" by code_simp
  have j: "os_path_join ''storage'' ''old.pdf'' = ''storage/old.pdf''" by code_simp
  from get_file_path_plain_name [OF v1, of store_world "''storage''"]
       get_file_path_plain_name [OF v2, of store_world "''storage''"] v1 v2 d1 r d2 j
  show ?thesis by simp
qed

text \<open>
  C7 as stated fails: the joined path is only tested with os.path.exists.  A name that climbs
  out of the root with \<open>..\<close> is answered with a path that resolves outside the root, and the
  name of a subdirectory is answered although it is no regular file.
\<close>

theorem get_file_path_traversal:
  "get_file_path store_world ''storage'' ''../secret.pdf'' = Some ''storage/../secret.pdf''
   \<and> resolve store_world ''storage'' = Some [''storage'']
   \<and> resolve store_world ''storage/../secret.pdf'' = Some [''secret.pdf'']
   \<and> \<not> direct_file store_world ''storage'' ''../secret.pdf''
   \<and> get_file_path store_world ''storage'' ''sub'' = Some ''storage/sub''
   \<and> \<not> direct_file store_world ''storage'' ''sub''"
  by code_simp

section \<open>Floats: comparison, and the ints that convert\<close>

text \<open>
  The comparison of two floats is the comparison of the numbers they stand for; an int
  converts to a float exactly when its size is below \<open>2 ^ 1024 - 2 ^ 970\<close>, the least number
  that rounds to \<open>2 ^ 1024\<close>.
\<close>

lemma bit_length_nonneg: "0 \<le> bit_length n"
  by (induction n rule: bit_length.induct) (subst bit_length.simps, simp)

lemma bit_length_less: "0 \<le> a \<Longrightarrow> a < 2 ^ nat (bit_length a)"
proof (induction a rule: bit_length.induct)
  case (1 n)
  show ?case
  proof (cases "n \<le> 0")
    case True
    with 1(2) show ?thesis by (subst bit_length.simps) simp
  next
    case False
    then have h: "n div 2 < 2 ^ nat (bit_length (n div 2))" using 1 by simp
    have "nat (1 + bit_length (n div 2)) = Suc (nat (bit_length (n div 2)))"
      using bit_length_nonneg [of "n div 2"] by simp
    with h False show ?thesis by (subst bit_length.simps) simp
  qed
qed

lemma bit_length_le: "a < 2 ^ k \<Longrightarrow> bit_length a \<le> int k"
proof (induction k arbitrary: a)
  case 0
  then show ?case by (subst bit_length.simps) simp
next
  case (Suc k)
  show ?case
  proof (cases "a \<le> 0")
    case True
    then show ?thesis by (subst bit_length.simps) simp
  next
    case False
    from Suc.prems have "a div 2 < 2 ^ k" by simp
    from Suc.IH [OF this] False show ?thesis by (subst bit_length.simps) simp
  qed
qed

lemma round_shift_bounds: "0 \<le> a \<Longrightarrow> 0 \<le> round_shift a s \<and> round_shift a s \<le> a div 2 ^ s + 1"
  by (auto simp: round_shift_def Let_def pos_imp_zdiv_nonneg_iff)

lemma div_less_bound:
  fixes a c :: int
  assumes "a < c * 2 ^ k"
  shows "a div 2 ^ k < c"
proof -
  have "a div 2 ^ k * 2 ^ k = a - a mod 2 ^ k" by (simp add: minus_mod_eq_div_mult)
  moreover have "0 \<le> a mod 2 ^ k" by simp
  ultimately have le: "a div 2 ^ k * 2 ^ k \<le> a" by simp
  from le assms have "a div 2 ^ k * 2 ^ k < c * 2 ^ k" by (rule le_less_trans)
  then show ?thesis by simp
qed

lemma to_double_finite:
  assumes "\<bar>n\<bar> < 2 ^ 1023"
  shows "\<exists>d. to_double n 0 = Finite d"
proof -
  define a where "a = \<bar>n\<bar>"
  define s where "s = max 0 (max (bit_length a - 53) (- 1074 - 0))"
  define q where "q = round_shift a (nat s)"
  define u where "u = min (53 - bit_length q) (0 + s + 1074)"
  define q' where "q' = (if u < 0 then q div 2 else q * 2 ^ nat u)"
  define e' where "e' = 0 + s - u"
  have a0: "0 \<le> a" by (simp add: a_def)
  from assms have "bit_length a \<le> 1023" using bit_length_le [of a 1023] by (simp add: a_def)
  then have s: "0 \<le> s" "s \<le> 970" "bit_length a - 53 \<le> s" by (auto simp: s_def)
  from round_shift_bounds [OF a0, of "nat s"] have q0: "0 \<le> q" and q1: "q \<le> a div 2 ^ nat s + 1"
    by (auto simp: q_def)
  have "a < 2 ^ nat (bit_length a)" by (rule bit_length_less [OF a0])
  also have "(2::int) ^ nat (bit_length a) \<le> 2 ^ (nat s + 53)"
    using s by (intro power_increasing) auto
  finally have "a < 2 ^ 53 * 2 ^ nat s" by (simp add: power_add)
  then have "a div 2 ^ nat s < 2 ^ 53" by (rule div_less_bound)
  with q1 have q53: "q \<le> 2 ^ 53" by simp
  then have "q < 2 ^ 54" by simp
  then have bq: "bit_length q \<le> 54" using bit_length_le [of q 54] by simp
  have u1: "- 1 \<le> u" using bq s by (simp add: u_def)
  have "bit_length q' + e' \<le> 1024"
  proof (cases "u < 0")
    case True
    then have "q' = q div 2" by (simp add: q'_def)
    with q53 have "q' < 2 ^ 53" by simp
    then have "bit_length q' \<le> 53" using bit_length_le [of q' 53] by simp
    moreover from True u1 s have "e' \<le> 971" by (simp add: e'_def)
    ultimately show ?thesis by simp
  next
    case False
    then have q': "q' = q * 2 ^ nat u" by (simp add: q'_def)
    have "q < 2 ^ nat (bit_length q)" by (rule bit_length_less [OF q0])
    then have "q' < 2 ^ (nat (bit_length q) + nat u)" by (simp add: q' power_add)
    then have "bit_length q' \<le> int (nat (bit_length q) + nat u)" by (rule bit_length_le)
    also have "\<dots> = bit_length q + u" using False bit_length_nonneg [of q] by simp
    finally have "bit_length q' + e' \<le> bit_length q + s" by (simp add: e'_def)
    with bq s show ?thesis by simp
  qed
  then show ?thesis
    unfolding to_double_def Let_def a_def [symmetric] s_def [symmetric] q_def [symmetric]
      u_def [symmetric] q'_def [symmetric] e'_def [symmetric]
    by simp
qed

lemma dbl_less_iff: "dbl_less x y \<longleftrightarrow> dbl_val x < dbl_val y"
proof (cases x; cases y)
  fix m1 e1 m2 e2 assume x: "x = Dbl m1 e1" and y: "y = Dbl m2 e2"
  define e where "e = min e1 e2"
  have p: "(2::real) powr of_int e1 = 2 ^ nat (e1 - e) * 2 powr of_int e"
          "(2::real) powr of_int e2 = 2 ^ nat (e2 - e) * 2 powr of_int e"
    by (simp_all add: e_def powr_realpow [symmetric] powr_add [symmetric])
  have "dbl_val x < dbl_val y \<longleftrightarrow>
        of_int (m1 * 2 ^ nat (e1 - e)) * 2 powr of_int e < of_int (m2 * 2 ^ nat (e2 - e)) * (2::real) powr of_int e"
    by (simp add: x y dbl_val_def p mult.assoc)
  also have "\<dots> \<longleftrightarrow> (of_int (m1 * 2 ^ nat (e1 - e)) :: real) < of_int (m2 * 2 ^ nat (e2 - e))"
    by (simp del: of_int_mult of_int_power add: mult_less_cancel_right)
  also have "\<dots> \<longleftrightarrow> m1 * 2 ^ nat (e1 - e) < m2 * 2 ^ nat (e2 - e)"
    by (simp only: of_int_less_iff)
  finally show ?thesis by (simp add: x y e_def Let_def)
qed

lemma bit_length_eq:
  assumes "2 ^ k \<le> a" "a < 2 ^ Suc k"
  shows "bit_length a = int (Suc k)"
proof -
  from assms(1) have a0: "0 \<le> a" by (meson order_trans zero_le_numeral zero_le_power)
  have le: "bit_length a \<le> int (Suc k)" by (rule bit_length_le [OF assms(2)])
  have "\<not> bit_length a \<le> int k"
  proof
    assume "bit_length a \<le> int k"
    then have "nat (bit_length a) \<le> k" by simp
    then have "(2::int) ^ nat (bit_length a) \<le> 2 ^ k" by (intro power_increasing) auto
    with bit_length_less [OF a0] assms(1) show False by simp
  qed
  with le show ?thesis by simp
qed

lemma round_shift_cases:
  "round_shift a s = a div 2 ^ s \<and> 2 * (a mod 2 ^ s) \<le> 2 ^ s
   \<or> round_shift a s = a div 2 ^ s + 1 \<and> 2 ^ s \<le> 2 * (a mod 2 ^ s)"
  by (auto simp: round_shift_def Let_def)

lemma round_shift_tie:
  "2 * (a mod 2 ^ s) = 2 ^ s \<Longrightarrow> round_shift a s = (if odd (a div 2 ^ s) then a div 2 ^ s + 1 else a div 2 ^ s)"
  by (auto simp: round_shift_def Let_def)

lemma round_shift_up: "2 ^ s < 2 * (a mod 2 ^ s) \<Longrightarrow> round_shift a s = a div 2 ^ s + 1"
  by (auto simp: round_shift_def Let_def)

lemma round_shift_down: "2 * (a mod 2 ^ s) < 2 ^ s \<Longrightarrow> round_shift a s = a div 2 ^ s"
  by (auto simp: round_shift_def Let_def)

lemma bit_length_gt:
  assumes "2 ^ k \<le> q"
  shows "int k < bit_length q"
proof (rule ccontr)
  assume "\<not> int k < bit_length q"
  then have "nat (bit_length q) \<le> k" by simp
  then have p: "(2::int) ^ nat (bit_length q) \<le> 2 ^ k" by (intro power_increasing) auto
  from assms have "0 \<le> q" by (meson order_trans zero_le_numeral zero_le_power)
  then have "q < 2 ^ nat (bit_length q)" by (rule bit_length_less)
  from this p have "q < 2 ^ k" by (rule less_le_trans)
  with assms show False by simp
qed

lemma div_ge_bound:
  fixes a c :: int
  assumes "c * 2 ^ k \<le> a"
  shows "c \<le> a div 2 ^ k"
proof -
  have "a div 2 ^ k * 2 ^ k = a - a mod 2 ^ k" by (simp add: minus_mod_eq_div_mult)
  moreover have "a mod 2 ^ k < 2 ^ k" by simp
  ultimately have "a < a div 2 ^ k * 2 ^ k + 2 ^ k" by linarith
  also have "\<dots> = (a div 2 ^ k + 1) * 2 ^ k" by (simp add: distrib_right)
  finally have "a < (a div 2 ^ k + 1) * 2 ^ k" .
  with assms have "c * 2 ^ k < (a div 2 ^ k + 1) * 2 ^ k" by (rule le_less_trans)
  then show ?thesis by simp
qed

lemma to_double_top:
  assumes lo: "2 ^ 1023 \<le> a" and hi: "a < 2 ^ 1024" and m: "\<bar>n\<bar> = a"
  shows "(\<exists>d. to_double n 0 = Finite d) \<longleftrightarrow> a < 2 ^ 1024 - 2 ^ 970"
proof -
  define q where "q = round_shift a 971"
  define d where "d = a div 2 ^ 971"
  define r where "r = a mod 2 ^ 971"
  have bl: "bit_length a = 1024" using bit_length_eq [of 1023 a] lo hi by simp
  have a: "a = d * 2 ^ 971 + r" by (simp add: d_def r_def)
  have r: "0 \<le> r" "r < 2 ^ 971" by (simp_all add: r_def)
  from a r(2) lo have d1: "2 ^ 52 \<le> d" by simp
  from a r(1) hi have d2: "d < 2 ^ 53" by simp
  have rq: "round_shift a 971 = q" by (simp add: q_def)
  show ?thesis
  proof (cases "a < 2 ^ 1024 - 2 ^ 970")
    case True
    have q: "2 ^ 52 \<le> q \<and> q < 2 ^ 53"
    proof (cases "d = 2 ^ 53 - 1")
      case d: True
      with a True have "2 * r < 2 ^ 971" by simp
      then have "q = d" unfolding q_def d_def r_def by (rule round_shift_down)
      with d1 d2 show ?thesis by simp
    next
      case False
      with d2 have "d + 1 < 2 ^ 53" by simp
      moreover from round_shift_cases [of a 971] have "q = d \<or> q = d + 1" by (auto simp: q_def d_def)
      ultimately show ?thesis using d1 d2 by auto
    qed
    then have blq: "bit_length q = 53" using bit_length_eq [of 52 q] by simp
    from q have q0: "q \<noteq> 0" by simp
    have "\<exists>d. to_double n 0 = Finite d"
      using bl m rq blq q0 by (simp add: to_double_def Let_def)
    with True show ?thesis by simp
  next
    case False
    then have lo': "2 ^ 1024 - 2 ^ 970 \<le> a" by simp
    from a r(2) lo' have "2 ^ 53 - 2 < d" by simp
    with d2 have d3: "d = 2 ^ 53 - 1" by simp
    with a lo' have r1: "2 ^ 971 \<le> 2 * r" by simp
    have od: "odd d" by (simp add: d3)
    have "q = d + 1"
    proof (cases "2 * r = 2 ^ 971")
      case True
      then show ?thesis using od round_shift_tie [of a 971] by (simp add: q_def d_def r_def)
    next
      case False
      with r1 have "2 ^ 971 < 2 * r" by simp
      then show ?thesis unfolding q_def d_def r_def by (rule round_shift_up)
    qed
    with d3 have q: "q = 2 ^ 53" by simp
    have blq: "bit_length q = 54" using bit_length_eq [of 53 q] by (simp add: q)
    have blq': "bit_length (q div 2) = 53" using bit_length_eq [of 52 "q div 2"] by (simp add: q)
    from q have q0: "q \<noteq> 0" by simp
    have "\<not> (\<exists>d. to_double n 0 = Finite d)"
      using bl m rq blq blq' q0 by (simp add: to_double_def Let_def)
    with False show ?thesis by simp
  qed
qed

lemma to_double_huge:
  assumes "2 ^ 1024 \<le> \<bar>n\<bar>"
  shows "\<not> (\<exists>d. to_double n 0 = Finite d)"
proof -
  define a where "a = \<bar>n\<bar>"
  define s where "s = max 0 (max (bit_length a - 53) (- 1074 - 0))"
  define q where "q = round_shift a (nat s)"
  define u where "u = min (53 - bit_length q) (0 + s + 1074)"
  define q' where "q' = (if u < 0 then q div 2 else q * 2 ^ nat u)"
  define e' where "e' = 0 + s - u"
  have a0: "0 \<le> a" by (simp add: a_def)
  from assms have big: "2 ^ 1024 \<le> a" by (simp add: a_def)
  then have bl: "1024 < bit_length a" using bit_length_gt [of 1024 a] by simp
  then have s: "s = bit_length a - 53" "972 \<le> s" by (auto simp: s_def)
  from round_shift_bounds [OF a0, of "nat s"] have q1: "q \<le> a div 2 ^ nat s + 1"
    by (auto simp: q_def)
  have "a div 2 ^ nat s \<le> q" using round_shift_cases [of a "nat s"] by (auto simp: q_def)
  moreover have "2 ^ 52 \<le> a div 2 ^ nat s"
  proof (rule div_ge_bound)
    have pos: "0 < a" using big by (meson less_le_trans zero_less_numeral zero_less_power)
    have "bit_length a \<le> int (nat s + 52 + 1) \<or> int (nat s + 52) < bit_length a" by linarith
    have "\<not> a < 2 ^ (52 + nat s)"
    proof
      assume "a < 2 ^ (52 + nat s)"
      from bit_length_le [OF this] s show False by simp
    qed
    then show "2 ^ 52 * 2 ^ nat s \<le> a" by (simp add: power_add)
  qed
  ultimately have q52: "2 ^ 52 \<le> q" by simp
  have "a < 2 ^ nat (bit_length a)" by (rule bit_length_less [OF a0])
  also have "(2::int) ^ nat (bit_length a) = 2 ^ (nat s + 53)" using s by (simp add: nat_add_distrib)
  finally have "a < 2 ^ 53 * 2 ^ nat s" by (simp add: power_add)
  then have "a div 2 ^ nat s < 2 ^ 53" by (rule div_less_bound)
  with q1 have q53: "q \<le> 2 ^ 53" by simp
  then have "q < 2 ^ 54" by simp
  then have bq: "bit_length q \<le> 54" using bit_length_le [of q 54] by simp
  from q52 have bq': "52 < bit_length q" using bit_length_gt [of 52 q] by simp
  from q52 have q0: "q \<noteq> 0" by simp
  have u: "u = 53 - bit_length q" using s bq bq' by (simp add: u_def)
  have "1024 < bit_length q' + e'"
  proof (cases "bit_length q = 53")
    case True
    then have "u = 0" by (simp add: u)
    then have "q' = q" "e' = s" by (simp_all add: q'_def e'_def)
    with True s show ?thesis by simp
  next
    case False
    with bq bq' have b54: "bit_length q = 54" by simp
    then have u1: "u = - 1" by (simp add: u)
    have "\<not> q < 2 ^ 53"
    proof
      assume "q < 2 ^ 53"
      from bit_length_le [OF this] b54 show False by simp
    qed
    then have "2 ^ 52 \<le> q div 2" by simp
    then have "52 < bit_length (q div 2)" using bit_length_gt [of 52 "q div 2"] by simp
    moreover from u1 have "q' = q div 2" "e' = s + 1" by (simp_all add: q'_def e'_def)
    ultimately show ?thesis using s by simp
  qed
  with q0 show ?thesis
    unfolding to_double_def Let_def a_def [symmetric] s_def [symmetric] q_def [symmetric]
      u_def [symmetric] q'_def [symmetric] e'_def [symmetric]
    by simp
qed

lemma float_of_int_overflow:
  "(\<exists>d. float_of_int n = Inr d) \<longleftrightarrow> \<bar>n\<bar> < 2 ^ 1024 - 2 ^ 970"
proof -
  have fin: "(\<exists>d. float_of_int n = Inr d) \<longleftrightarrow> (\<exists>d. to_double n 0 = Finite d)"
    by (auto simp: float_of_int_def split: xdbl.splits)
  consider "\<bar>n\<bar> < 2 ^ 1023" | "2 ^ 1023 \<le> \<bar>n\<bar>" "\<bar>n\<bar> < 2 ^ 1024" | "2 ^ 1024 \<le> \<bar>n\<bar>"
    by linarith
  then show ?thesis
  proof cases
    case 1
    then have "\<bar>n\<bar> < 2 ^ 1024 - 2 ^ 970" by simp
    with to_double_finite [OF 1] fin show ?thesis by simp
  next
    case 2
    from to_double_top [OF 2 refl] fin show ?thesis by simp
  next
    case 3
    then have "\<not> \<bar>n\<bar> < 2 ^ 1024 - 2 ^ 970" by simp
    with to_double_huge [OF 3] fin show ?thesis by simp
  qed
qed

lemma float_sub_int_cases:
  "(\<bar>n\<bar> < 2 ^ 1024 - 2 ^ 970 \<longrightarrow> (\<exists>c. float_sub_int x n = Inr c))
   \<and> (2 ^ 1024 - 2 ^ 970 \<le> \<bar>n\<bar> \<longrightarrow>
        float_sub_int x n = Inl (OverflowError ''int too large to convert to float''))"
  using float_of_int_overflow [of n]
  by (auto simp: float_sub_int_def float_of_int_def split: sum.splits xdbl.splits)

section \<open>Artifact store: eviction sweep\<close>

lemma os_remove_file:
  assumes "resolve w p = Some q" "q \<noteq> []" "map_of (files w) q = Some (File t lk c)"
  shows "os_remove w p = (if lk then (Inl (eacces p), w)
                          else (Inr (), w\<lparr>files := delete_key q (files w)\<rparr>))"
  using assms by (simp add: os_remove_def node_at_def)

lemma resolve_after_touch:
  assumes "touches_only q (files w) fs'" "resolve w p = Some d" "d \<noteq> q"
  shows "resolve (w\<lparr>files := fs'\<rparr>) p = Some d"
  using assms touches_only_walk [OF assms(1), of "start_of w p" "split_sep p" d]
  by (auto simp: resolve_def start_of_def split: if_splits)

lemma cleanup_loop_effect:
  assumes "resolve w sp = Some d" "is_dir (files w) d" "\<forall>n \<in> set names. valid_name n"
  shows "\<exists>w' out'. cleanup_loop sp cutoff names w out = (Inr (), w', out')
           \<and> cwd w' = cwd w \<and> clock w' = clock w
           \<and> resolve w' sp = Some d \<and> is_dir (files w') d
           \<and> (\<forall>k. map_of (files w') k =
                 (if (\<exists>n \<in> set names. k = d @ [n])
                      \<and> (\<exists>t c. map_of (files w) k = Some (File t False c) \<and> float_lt t cutoff)
                  then None else map_of (files w) k))"
  using assms
proof (induction names arbitrary: w out)
  case Nil
  then show ?case by simp
next
  case (Cons n rest)
  from Cons.prems have n: "valid_name n" and rest: "\<forall>n \<in> set rest. valid_name n" by auto
  note r = Cons.prems(1) and dir = Cons.prems(2)
  let ?p = "os_path_join sp n"
  let ?k = "d @ [n]"
  have look: "lookup_path w ?p = map_of (files w) ?k" by (rule lookup_join_name [OF r dir n])
  have res: "map_of (files w) ?k \<noteq> None \<Longrightarrow> resolve w ?p = Some ?k"
    using resolve_join_name [OF r n] dir by simp
  consider (keep) "\<not> (\<exists>t c. map_of (files w) ?k = Some (File t False c) \<and> float_lt t cutoff)"
    | (drop) t c where "map_of (files w) ?k = Some (File t False c)" "float_lt t cutoff"
    by blast
  then show ?case
  proof cases
    case keep
    have "\<exists>out1. cleanup_loop sp cutoff (n # rest) w out = cleanup_loop sp cutoff rest w out1"
    proof (cases "map_of (files w) ?k")
      case None
      then show ?thesis by (auto simp: os_path_isfile_def look)
    next
      case (Some nd)
      show ?thesis
      proof (cases nd)
        case Dir
        with Some show ?thesis by (auto simp: os_path_isfile_def look)
      next
        case (File t lk c)
        with Some keep have "\<not> float_lt t cutoff \<or> lk" by auto
        with Some File res os_remove_file [OF _ _ Some [unfolded File], of ?p]
        show ?thesis
          by (auto simp: os_path_isfile_def os_path_getmtime_def look)
      qed
    qed
    then obtain out1 where step: "cleanup_loop sp cutoff (n # rest) w out = cleanup_loop sp cutoff rest w out1" ..
    from Cons.IH [OF r dir rest, of out1] obtain w' out' where
      IH: "cleanup_loop sp cutoff rest w out1 = (Inr (), w', out')" "cwd w' = cwd w" "clock w' = clock w"
        "resolve w' sp = Some d" "is_dir (files w') d"
        "\<forall>k. map_of (files w') k =
           (if (\<exists>n \<in> set rest. k = d @ [n])
                \<and> (\<exists>t c. map_of (files w) k = Some (File t False c) \<and> float_lt t cutoff)
            then None else map_of (files w) k)"
      by blast
    from IH(6) keep have "\<forall>k. map_of (files w') k =
           (if (\<exists>n' \<in> set (n # rest). k = d @ [n'])
                \<and> (\<exists>t c. map_of (files w) k = Some (File t False c) \<and> float_lt t cutoff)
            then None else map_of (files w) k)"
      by auto
    with step IH(1-5) show ?thesis by auto
  next
    case drop
    let ?w1 = "w\<lparr>files := delete_key ?k (files w)\<rparr>"
    from drop(1) have ex: "map_of (files w) ?k \<noteq> None" by simp
    have rm: "os_remove w ?p = (Inr (), ?w1)"
      using os_remove_file [OF res [OF ex] _ drop(1)] by simp
    have step: "cleanup_loop sp cutoff (n # rest) w out = cleanup_loop sp cutoff rest ?w1 out"
      using drop rm by (simp add: os_path_isfile_def os_path_getmtime_def look)
    have touch: "touches_only ?k (files w) (delete_key ?k (files w))"
      using drop(1) by (intro touches_only_delete) auto
    have r1: "resolve ?w1 sp = Some d" by (rule resolve_after_touch [OF touch r]) simp
    have dir1: "is_dir (files ?w1) d" using touches_only_is_dir [OF touch] dir by simp
    from Cons.IH [OF r1 dir1 rest, of out] obtain w' out' where
      IH: "cleanup_loop sp cutoff rest ?w1 out = (Inr (), w', out')" "cwd w' = cwd ?w1" "clock w' = clock ?w1"
        "resolve w' sp = Some d" "is_dir (files w') d"
        "\<forall>k. map_of (files w') k =
           (if (\<exists>n \<in> set rest. k = d @ [n])
                \<and> (\<exists>t c. map_of (files ?w1) k = Some (File t False c) \<and> float_lt t cutoff)
            then None else map_of (files ?w1) k)"
      by blast
    from IH(6) drop have "\<forall>k. map_of (files w') k =
           (if (\<exists>n' \<in> set (n # rest). k = d @ [n'])
                \<and> (\<exists>t c. map_of (files w) k = Some (File t False c) \<and> float_lt t cutoff)
            then None else map_of (files w) k)"
      by (auto simp: map_of_delete_key)
    with step IH(1-5) show ?thesis by auto
  qed
qed

lemma cleanup_loop_noop:
  assumes "resolve w sp = Some d" "is_dir (files w) d" "\<forall>n \<in> set names. valid_name n"
    and "\<forall>n \<in> set names. \<not> (\<exists>t c. map_of (files w) (d @ [n]) = Some (File t False c) \<and> float_lt t cutoff)"
  shows "\<exists>out'. cleanup_loop sp cutoff names w out = (Inr (), w, out')"
  using assms(3,4)
proof (induction names arbitrary: out)
  case Nil
  then show ?case by simp
next
  case (Cons n rest)
  from Cons.prems have n: "valid_name n"
    and keep: "\<not> (\<exists>t c. map_of (files w) (d @ [n]) = Some (File t False c) \<and> float_lt t cutoff)"
    by auto
  let ?p = "os_path_join sp n"
  let ?k = "d @ [n]"
  have look: "lookup_path w ?p = map_of (files w) ?k" by (rule lookup_join_name [OF assms(1,2) n])
  have res: "map_of (files w) ?k \<noteq> None \<Longrightarrow> resolve w ?p = Some ?k"
    using resolve_join_name [OF assms(1) n] assms(2) by simp
  have "\<exists>out1. cleanup_loop sp cutoff (n # rest) w out = cleanup_loop sp cutoff rest w out1"
  proof (cases "map_of (files w) ?k")
    case None
    then show ?thesis by (auto simp: os_path_isfile_def look)
  next
    case (Some nd)
    show ?thesis
    proof (cases nd)
      case Dir
      with Some show ?thesis by (auto simp: os_path_isfile_def look)
    next
      case (File t lk c)
      with Some keep have "\<not> float_lt t cutoff \<or> lk" by auto
      with Some File res os_remove_file [OF _ _ Some [unfolded File], of ?p]
      show ?thesis
        by (auto simp: os_path_isfile_def os_path_getmtime_def look)
    qed
  qed
  then obtain out1 where "cleanup_loop sp cutoff (n # rest) w out = cleanup_loop sp cutoff rest w out1" ..
  with Cons.IH [of out1] Cons.prems show ?case by auto
qed

lemma os_listdir_Inr:
  assumes "os_listdir w sp = Inr names"
  obtains d where "resolve w sp = Some d" "is_dir (files w) d"
    "set names = {n. valid_name n \<and> map_of (files w) (d @ [n]) \<noteq> None}"
proof -
  from assms obtain d where d: "resolve w sp = Some d" "is_dir (files w) d"
    and names: "names = remdups (map (\<lambda>kv. last (fst kv))
                 (filter (\<lambda>kv. fst kv \<noteq> [] \<and> butlast (fst kv) = d \<and> valid_name (last (fst kv))) (files w)))"
    by (auto simp: os_listdir_def split: option.splits if_splits)
  have "set names = {n. valid_name n \<and> map_of (files w) (d @ [n]) \<noteq> None}"
  proof (intro set_eqI iffI)
    fix n assume "n \<in> set names"
    then obtain k nd where k: "(k, nd) \<in> set (files w)" "k \<noteq> []" "butlast k = d"
        "valid_name (last k)" "n = last k"
      unfolding names by auto
    then have kk: "k = d @ [n]" by (metis append_butlast_last_id)
    from k(1) have "k \<in> fst ` set (files w)" by force
    then have "map_of (files w) k \<noteq> None" by (simp add: map_of_eq_None_iff)
    with kk have m: "map_of (files w) (d @ [n]) \<noteq> None" by simp
    from k(4,5) have "valid_name n" by simp
    with m show "n \<in> {n. valid_name n \<and> map_of (files w) (d @ [n]) \<noteq> None}"
      by simp
  next
    fix n assume "n \<in> {n. valid_name n \<and> map_of (files w) (d @ [n]) \<noteq> None}"
    then obtain nd where "valid_name n" "map_of (files w) (d @ [n]) = Some nd" by auto
    then have "(d @ [n], nd) \<in> set (files w)" by (auto dest: map_of_SomeD)
    with \<open>valid_name n\<close> have "(d @ [n], nd) \<in> set (filter (\<lambda>kv. fst kv \<noteq> [] \<and> butlast (fst kv) = d
        \<and> valid_name (last (fst kv))) (files w))" by simp
    then have "last (fst (d @ [n], nd)) \<in> set names"
      unfolding names set_remdups set_map by (rule imageI)
    then show "n \<in> set names" by simp
  qed
  with d that show thesis by blast
qed

lemma resolve_clock: "resolve (w\<lparr>clock := t\<rparr>) p = resolve w p"
  by (simp add: resolve_def start_of_def)

lemma os_listdir_clock: "os_listdir (w\<lparr>clock := t\<rparr>) p = os_listdir w p"
  by (auto simp: os_listdir_def resolve_clock lookup_error_def start_of_def split: option.splits)

lemma float_sub_int_Inl:
  "float_sub_int x n = Inl e \<Longrightarrow> e = OverflowError ''int too large to convert to float''"
  by (auto simp: float_sub_int_def float_of_int_def split: sum.splits xdbl.splits)

lemma sweep_effect:
  fixes w :: world and sp :: string and hours :: int
  assumes c: "float_sub_int (clock w) (hours * 3600) = Inr cutoff"
  defines "res \<equiv> cleanup_old_files w sp hours"
  defines "w' \<equiv> fst (snd res)"
  shows "(\<forall>k. map_of (files w') k =
              (if older_than w sp cutoff k \<and> \<not> unlink_refused w k then None else map_of (files w) k))
       \<and> cwd w' = cwd w \<and> clock w' = clock w
       \<and> (\<forall>names. os_listdir w sp = Inr names \<longrightarrow> fst res = Inr ())
       \<and> (\<forall>d. resolve w sp = Some d \<and> is_dir (files w) d \<longrightarrow>
              resolve w' sp = Some d \<and> is_dir (files w') d)"
proof (cases "os_listdir w sp")
  case (Inl e)
  then have "res = (Inl e, w, [])" by (simp add: res_def cleanup_old_files_def c)
  moreover from Inl have "\<not> older_than w sp cutoff k" for k
    by (auto simp: os_listdir_def older_than_def split: option.splits if_splits)
  ultimately show ?thesis using Inl by (simp add: w'_def)
next
  case (Inr names)
  from Inr obtain d where d: "resolve w sp = Some d" "is_dir (files w) d"
    and names: "set names = {n. valid_name n \<and> map_of (files w) (d @ [n]) \<noteq> None}"
    by (rule os_listdir_Inr)
  from names have v: "\<forall>n \<in> set names. valid_name n" by auto
  from cleanup_loop_effect [OF d v, of cutoff "[]"] obtain w1 out1 where
    L: "cleanup_loop sp cutoff names w [] = (Inr (), w1, out1)" "cwd w1 = cwd w" "clock w1 = clock w"
       "resolve w1 sp = Some d" "is_dir (files w1) d"
       "\<forall>k. map_of (files w1) k =
           (if (\<exists>n \<in> set names. k = d @ [n])
                \<and> (\<exists>t c. map_of (files w) k = Some (File t False c) \<and> float_lt t cutoff)
            then None else map_of (files w) k)"
    by blast
  have res: "res = (Inr (), w1, out1)"
    using Inr L(1) by (simp add: res_def cleanup_old_files_def Let_def c)
  then have w1: "w' = w1" by (simp add: w'_def)
  have cond: "((\<exists>n \<in> set names. k = d @ [n])
                \<and> (\<exists>t c. map_of (files w) k = Some (File t False c) \<and> float_lt t cutoff))
              \<longleftrightarrow> (older_than w sp cutoff k \<and> \<not> unlink_refused w k)" for k
  proof
    assume "(\<exists>n \<in> set names. k = d @ [n])
                \<and> (\<exists>t c. map_of (files w) k = Some (File t False c) \<and> float_lt t cutoff)"
    with names d show "older_than w sp cutoff k \<and> \<not> unlink_refused w k"
      by (auto simp: older_than_def unlink_refused_def)
  next
    assume a: "older_than w sp cutoff k \<and> \<not> unlink_refused w k"
    with d have k: "k \<noteq> []" "butlast k = d" "valid_name (last k)" by (auto simp: older_than_def)
    then have kk: "k = d @ [last k]" by (metis append_butlast_last_id)
    from a d obtain t c where f: "map_of (files w) k = Some (File t False c)" "float_lt t cutoff"
      by (auto simp: older_than_def unlink_refused_def split: option.splits node.splits)
    with k kk names have "last k \<in> set names" by auto
    with kk f show "(\<exists>n \<in> set names. k = d @ [n])
                \<and> (\<exists>t c. map_of (files w) k = Some (File t False c) \<and> float_lt t cutoff)"
      by blast
  qed
  from L(6) cond have "\<forall>k. map_of (files w1) k =
              (if older_than w sp cutoff k \<and> \<not> unlink_refused w k then None else map_of (files w) k)"
    by simp
  with L(2,3,4,5) d res w1 show ?thesis by simp
qed

text \<open>A sweep with the cutoff of an earlier one finds nothing to delete in what that one left.\<close>

lemma sweep_again:
  fixes w :: world and sp :: string and hours :: int
  assumes c: "float_sub_int (clock w) (hours * 3600) = Inr cutoff"
    and c2: "float_sub_int t2 (hours * 3600) = Inr cutoff"
  defines "w' \<equiv> fst (snd (cleanup_old_files w sp hours))"
  shows "fst (snd (cleanup_old_files (w'\<lparr>clock := t2\<rparr>) sp hours)) = w'\<lparr>clock := t2\<rparr>"
proof -
  let ?w2 = "w'\<lparr>clock := t2\<rparr>"
  note eff = sweep_effect [OF c, of sp, folded w'_def]
  show ?thesis
  proof (cases "os_listdir ?w2 sp")
    case (Inl e)
    then show ?thesis by (simp add: cleanup_old_files_def c2)
  next
    case (Inr names')
    then have l': "os_listdir w' sp = Inr names'" by (simp add: os_listdir_clock)
    from l' obtain d where d: "resolve w' sp = Some d" "is_dir (files w') d"
      and names: "set names' = {n. valid_name n \<and> map_of (files w') (d @ [n]) \<noteq> None}"
      by (rule os_listdir_Inr)
    from names have v: "\<forall>n \<in> set names'. valid_name n" by auto
    have same_root: "resolve w sp = Some d \<and> is_dir (files w) d"
    proof (cases "os_listdir w sp")
      case (Inl e)
      then have "w' = w" by (simp add: w'_def cleanup_old_files_def c)
      with d show ?thesis by simp
    next
      case (Inr names0)
      then obtain d0 where d0: "resolve w sp = Some d0" "is_dir (files w) d0"
        by (rule os_listdir_Inr)
      with eff have "resolve w' sp = Some d0" by blast
      with d d0 show ?thesis by simp
    qed
    have none_old: "\<forall>n \<in> set names'.
        \<not> (\<exists>t c. map_of (files ?w2) (d @ [n]) = Some (File t False c) \<and> float_lt t cutoff)"
    proof (intro ballI notI)
      fix n assume n: "n \<in> set names'"
      assume "\<exists>t c. map_of (files ?w2) (d @ [n]) = Some (File t False c) \<and> float_lt t cutoff"
      then obtain t c where f: "map_of (files w') (d @ [n]) = Some (File t False c)" "float_lt t cutoff"
        by auto
      from eff have m: "map_of (files w') (d @ [n]) =
          (if older_than w sp cutoff (d @ [n]) \<and> \<not> unlink_refused w (d @ [n]) then None
           else map_of (files w) (d @ [n]))" by blast
      with f have no: "\<not> (older_than w sp cutoff (d @ [n]) \<and> \<not> unlink_refused w (d @ [n]))"
        and old: "map_of (files w) (d @ [n]) = Some (File t False c)"
        by (auto split: if_splits)
      from f(2) old same_root v n have "older_than w sp cutoff (d @ [n]) \<and> \<not> unlink_refused w (d @ [n])"
        by (auto simp: older_than_def unlink_refused_def)
      with no show False by blast
    qed
    have d2: "resolve ?w2 sp = Some d" "is_dir (files ?w2) d"
      using d by (simp_all add: resolve_clock)
    from cleanup_loop_noop [OF d2 v none_old, of "[]"] Inr show ?thesis
      by (auto simp: cleanup_old_files_def Let_def c2)
  qed
qed

text \<open>
  C8, as the code has it.  The sweep with maximal age H hours subtracts 3600 H from its clock
  reading as Python subtracts an int from a float.  When 3600 H is \<open>2 ^ 1024 - 2 ^ 970\<close> or
  more in size, too large for a float, the sweep raises OverflowError and deletes nothing.
  Otherwise the difference, a float, is the cutoff: after the sweep an entry of the file table
  is gone exactly when it was a regular file directly in the storage root, its time stamp was
  less than the cutoff, and the system did not refuse to unlink it; every other entry (younger
  files, directories, files elsewhere, files whose removal failed) is as before, and when the
  root can be listed the sweep ends normally whatever removals failed.  A second sweep, at
  whatever clock reading, leaves the world of the first as it is if the cutoff it computes is
  that of the first.
\<close>

theorem cleanup_old_files_sweep:
  fixes w :: world and sp :: string and hours :: int
  defines "res \<equiv> cleanup_old_files w sp hours"
  defines "w' \<equiv> fst (snd res)"
  shows "(\<forall>k. map_of (files w') k =
              (if old_file w sp hours k \<and> \<not> unlink_refused w k then None else map_of (files w) k))
       \<and> cwd w' = cwd w \<and> clock w' = clock w
       \<and> (2 ^ 1024 - 2 ^ 970 \<le> \<bar>hours * 3600\<bar> \<longrightarrow>
              res = (Inl (OverflowError ''int too large to convert to float''), w, []))
       \<and> (\<bar>hours * 3600\<bar> < 2 ^ 1024 - 2 ^ 970 \<longrightarrow>
              (\<exists>cutoff. float_sub_int (clock w) (hours * 3600) = Inr cutoff)
              \<and> (\<forall>names. os_listdir w sp = Inr names \<longrightarrow> fst res = Inr ()))
       \<and> (\<forall>t2. float_sub_int t2 (hours * 3600) = float_sub_int (clock w) (hours * 3600) \<longrightarrow>
              fst (snd (cleanup_old_files (w'\<lparr>clock := t2\<rparr>) sp hours)) = w'\<lparr>clock := t2\<rparr>)"
proof (cases "float_sub_int (clock w) (hours * 3600)")
  case (Inl e)
  with float_sub_int_cases [of "hours * 3600" "clock w"]
  have big: "2 ^ 1024 - 2 ^ 970 \<le> \<bar>hours * 3600\<bar>"
    and e: "e = OverflowError ''int too large to convert to float''"
    by (auto simp: not_less [symmetric] simp del: not_less)
  from Inl have r: "res = (Inl e, w, [])" by (simp add: res_def cleanup_old_files_def)
  then have w': "w' = w" by (simp add: w'_def)
  have "fst (snd (cleanup_old_files (w\<lparr>clock := t2\<rparr>) sp hours)) = w\<lparr>clock := t2\<rparr>"
    if "float_sub_int t2 (hours * 3600) = Inl e" for t2
    using that by (simp add: cleanup_old_files_def)
  with Inl r w' e big show ?thesis by (simp add: old_file_def)
next
  case (Inr cutoff)
  with float_sub_int_cases [of "hours * 3600" "clock w"]
  have small: "\<bar>hours * 3600\<bar> < 2 ^ 1024 - 2 ^ 970"
    by (auto simp: not_le [symmetric] simp del: not_le)
  note eff = sweep_effect [OF Inr, of sp, folded res_def, folded w'_def]
  have old: "old_file w sp hours k = older_than w sp cutoff k" for k
    by (simp add: old_file_def Inr)
  have again: "fst (snd (cleanup_old_files (w'\<lparr>clock := t2\<rparr>) sp hours)) = w'\<lparr>clock := t2\<rparr>"
    if "float_sub_int t2 (hours * 3600) = Inr cutoff" for t2
    using sweep_again [OF Inr that, of sp] by (simp add: w'_def res_def)
  from eff old again Inr small show ?thesis by simp
qed

text \<open>
  Instance: the storage root holds a directory, a file in use stamped 20, a file stamped 10
  and a file stamped 90000; the clock reads 100000 and the maximal age is 24 hours, so the
  cutoff is 13600.  The same cutoff comes from the same reading written with another
  exponent.
\<close>

theorem cleanup_old_files_sweep_witness:
  "os_listdir store_world ''storage'' = Inr [''sub'', ''busy.pdf'', ''old.pdf'', ''new.pdf'']
   \<and> float_sub_int (clock store_world) (24 * 3600) = Inr (Finite (Dbl 7476679068876800 (- 39)))
   \<and> float_sub_int (Dbl 200000 (- 1)) (24 * 3600) = float_sub_int (clock store_world) (24 * 3600)
   \<and> fst (cleanup_old_files store_world ''storage'' 24) = Inr ()
   \<and> old_file store_world ''storage'' 24 [''storage'', ''busy.pdf'']
   \<and> unlink_refused store_world [''storage'', ''busy.pdf'']
   \<and> map_of (files (fst (snd (cleanup_old_files store_world ''storage'' 24)))) [''storage'', ''busy.pdf'']
       = Some (File (Dbl 20 0) True (Bytes ''b''))
   \<and> old_file store_world ''storage'' 24 [''storage'', ''old.pdf'']
   \<and> \<not> unlink_refused store_world [''storage'', ''old.pdf'']
   \<and> map_of (files (fst (snd (cleanup_old_files store_world ''storage'' 24)))) [''storage'', ''old.pdf'']
       = None
   \<and> \<not> old_file store_world ''storage'' 24 [''storage'', ''new.pdf'']
   \<and> map_of (files (fst (snd (cleanup_old_files store_world ''storage'' 24)))) [''storage'', ''new.pdf'']
       = Some (File (Dbl 90000 0) False (Bytes ''c''))
   \<and> fst (snd (cleanup_old_files
        ((fst (snd (cleanup_old_files store_world ''storage'' 24)))\<lparr>clock := Dbl 200000 (- 1)\<rparr>)
        ''storage'' 24))
       = (fst (snd (cleanup_old_files store_world ''storage'' 24)))\<lparr>clock := Dbl 200000 (- 1)\<rparr>"
proof -
  note T = cleanup_old_files_sweep [of store_world "''storage''" 24]
  from T have A: "\<forall>k. map_of (files (fst (snd (cleanup_old_files store_world ''storage'' 24)))) k =
      (if old_file store_world ''storage'' 24 k \<and> \<not> unlink_refused store_world k then None
       else map_of (files store_world) k)"
    by (rule conjunct1)
  from T have B: "\<bar>24 * 3600 :: int\<bar> < 2 ^ 1024 - 2 ^ 970 \<longrightarrow>
      (\<forall>names. os_listdir store_world ''storage'' = Inr names \<longrightarrow>
      fst (cleanup_old_files store_world ''storage'' 24) = Inr ())"
    by blast
  have small: "\<bar>24 * 3600 :: int\<bar> < 2 ^ 1024 - 2 ^ 970" by simp
  from T have C: "\<forall>t2. float_sub_int t2 (24 * 3600) = float_sub_int (clock store_world) (24 * 3600) \<longrightarrow>
      fst (snd (cleanup_old_files
        ((fst (snd (cleanup_old_files store_world ''storage'' 24)))\<lparr>clock := t2\<rparr>) ''storage'' 24))
       = (fst (snd (cleanup_old_files store_world ''storage'' 24)))\<lparr>clock := t2\<rparr>"
    by blast
  have l: "os_listdir store_world ''storage'' = Inr [''sub'', ''busy.pdf'', ''old.pdf'', ''new.pdf'']"
    by code_simp
  have c1: "float_sub_int (clock store_world) (24 * 3600) = Inr (Finite (Dbl 7476679068876800 (- 39)))"
    by code_simp
  have c2: "float_sub_int (Dbl 200000 (- 1)) (24 * 3600) = float_sub_int (clock store_world) (24 * 3600)"
    by code_simp
  have b1: "old_file store_world ''storage'' 24 [''storage'', ''busy.pdf'']" by code_simp
  have b2: "unlink_refused store_world [''storage'', ''busy.pdf'']" by code_simp
  have b3: "map_of (files store_world) [''storage'', ''busy.pdf''] = Some (File (Dbl 20 0) True (Bytes ''b''))"
    by (simp add: store_world_def)
  have o1: "old_file store_world ''storage'' 24 [''storage'', ''old.pdf'']" by code_simp
  have o2: "\<not> unlink_refused store_world [''storage'', ''old.pdf'']" by code_simp
  have n1: "\<not> old_file store_world ''storage'' 24 [''storage'', ''new.pdf'']" by code_simp
  have n3: "map_of (files store_world) [''storage'', ''new.pdf''] = Some (File (Dbl 90000 0) False (Bytes ''c''))"
    by (simp add: store_world_def)
  from B small l have r: "fst (cleanup_old_files store_world ''storage'' 24) = Inr ()" by blast
  from C c2 have i: "fst (snd (cleanup_old_files
        ((fst (snd (cleanup_old_files store_world ''storage'' 24)))\<lparr>clock := Dbl 200000 (- 1)\<rparr>)
        ''storage'' 24))
       = (fst (snd (cleanup_old_files store_world ''storage'' 24)))\<lparr>clock := Dbl 200000 (- 1)\<rparr>"
    by blast
  from A [rule_format, of "[''storage'', ''busy.pdf'']"] A [rule_format, of "[''storage'', ''old.pdf'']"]
    A [rule_format, of "[''storage'', ''new.pdf'']"] l r i c1 c2 b1 b2 b3 o1 o2 n1 n3
  show ?thesis by simp
qed

text \<open>
  C8 as stated fails.  A second sweep reads the clock again: after the sweep at 100000 has
  kept the file stamped 90000, the sweep at 200000 deletes it.  And for a maximal age of
  10 ^ 305 hours the sweep raises OverflowError where the claim has it delete nothing and end.
\<close>

theorem cleanup_old_files_second_sweep:
  "map_of (files (fst (snd (cleanup_old_files store_world ''storage'' 24)))) [''storage'', ''new.pdf'']
     = Some (File (Dbl 90000 0) False (Bytes ''c''))
   \<and> map_of (files (fst (snd (cleanup_old_files
        ((fst (snd (cleanup_old_files store_world ''storage'' 24)))\<lparr>clock := Dbl 200000 0\<rparr>)
        ''storage'' 24)))) [''storage'', ''new.pdf'']
     = None
   \<and> cleanup_old_files store_world ''storage'' (10 ^ 305)
     = (Inl (OverflowError ''int too large to convert to float''), store_world, [])"
  by code_simp

section \<open>Large format: intermediate files\<close>

lemma os_remove_Inr:
  assumes "os_remove w p = (Inr (), w')"
  obtains q t c where "resolve w p = Some q" "q \<noteq> []" "map_of (files w) q = Some (File t False c)"
    "w' = w\<lparr>files := delete_key q (files w)\<rparr>" "touches_only q (files w) (files w')"
proof -
  from assms obtain q t c where q: "resolve w p = Some q" "node_at (files w) q = Some (File t False c)"
    "w' = w\<lparr>files := delete_key q (files w)\<rparr>"
    by (auto simp: os_remove_def split: option.splits node.splits if_splits)
  from q(2) have ne: "q \<noteq> []" and m: "map_of (files w) q = Some (File t False c)"
    by (auto simp: node_at_def split: if_splits)
  from ne m have "touches_only q (files w) (delete_key q (files w))"
    by (intro touches_only_delete) auto
  with q ne m that show thesis by simp
qed

lemma exists_after_touch:
  assumes t: "touches_only q (files w) (files w')" and c: "cwd w' = cwd w"
    and e: "os_path_exists w' p" and gone: "map_of (files w') q = None"
  shows "os_path_exists w p \<and> resolve w p \<noteq> Some q"
proof -
  from e obtain d where d: "resolve w' p = Some d" "node_at (files w') d \<noteq> None"
    by (auto simp: os_path_exists_def lookup_path_def split: option.splits)
  from t have qne: "q \<noteq> []" by (simp add: touches_only_def)
  with d(2) gone have dq: "d \<noteq> q" by (auto simp: node_at_def)
  from d(1) have p: "p \<noteq> []" by (auto simp: resolve_def split: if_splits)
  from c have st: "start_of w' p = start_of w p" by (simp add: start_of_def)
  from d(1) p have "walk (files w') (start_of w p) (split_sep p) = Some d"
    by (simp add: resolve_def st)
  from touches_only_walk [OF touches_only_sym [OF t] this dq] p
  have r: "resolve w p = Some d" by (simp add: resolve_def)
  from t dq d(2) have "node_at (files w) d \<noteq> None" by (auto simp: touches_only_def node_at_def)
  with r dq show ?thesis by (simp add: os_path_exists_def lookup_path_def)
qed

lemma os_remove_gone:
  assumes "os_remove w p = (Inr (), w')"
  shows "\<not> os_path_exists w' p"
proof
  assume e: "os_path_exists w' p"
  from assms obtain q t c where q: "resolve w p = Some q" "q \<noteq> []"
    "w' = w\<lparr>files := delete_key q (files w)\<rparr>" "touches_only q (files w) (files w')"
    by (rule os_remove_Inr)
  from q(3) have "cwd w' = cwd w" "map_of (files w') q = None" by (simp_all add: map_of_delete_key)
  from exists_after_touch [OF q(4) this(1) e this(2)] q(1) show False by simp
qed

lemma os_remove_keeps_absent:
  assumes "os_remove w p = (Inr (), w')" "\<not> os_path_exists w p2"
  shows "\<not> os_path_exists w' p2"
proof
  assume e: "os_path_exists w' p2"
  from assms(1) obtain q t c where q: "resolve w p = Some q" "q \<noteq> []"
    "w' = w\<lparr>files := delete_key q (files w)\<rparr>" "touches_only q (files w) (files w')"
    by (rule os_remove_Inr)
  from q(3) have "cwd w' = cwd w" "map_of (files w') q = None" by (simp_all add: map_of_delete_key)
  from exists_after_touch [OF q(4) this(1) e this(2)] assms(2) show False by simp
qed

text \<open>
  C6, as the code has it.  When the large-format generation returns a file name, the
  intermediate raster, the intermediate PDF and the intermediate document no longer exist.
\<close>

theorem generate_gigantografia_cleans_on_success:
  assumes "generate_gigantografia ev w temp_storage data project_name = (Inr f, w')"
  shows "\<not> os_path_exists w' (os_path_join temp_storage (project_name @ ''_temp.tiff''))
       \<and> \<not> os_path_exists w' (os_path_join temp_storage (project_name @ ''_giga_temp.pdf''))
       \<and> \<not> os_path_exists w' (os_path_join temp_storage (project_name @ ''_giga_temp.docx''))"
proof -
  let ?img = "os_path_join temp_storage (project_name @ ''_temp.tiff'')"
  let ?pdf = "os_path_join temp_storage (project_name @ ''_giga_temp.pdf'')"
  let ?docx = "os_path_join temp_storage (project_name @ ''_giga_temp.docx'')"
  from assms obtain w4 w5 w6 where
    r1: "os_remove w4 ?img = (Inr (), w5)" and r2: "os_remove w5 ?pdf = (Inr (), w6)"
    and r3: "os_remove w6 ?docx = (Inr (), w')"
    by (auto simp: generate_gigantografia_def Let_def split: prod.splits sum.splits)
  have "\<not> os_path_exists w5 ?img" by (rule os_remove_gone [OF r1])
  then have "\<not> os_path_exists w6 ?img" by (rule os_remove_keeps_absent [OF r2])
  then have a: "\<not> os_path_exists w' ?img" by (rule os_remove_keeps_absent [OF r3])
  have "\<not> os_path_exists w6 ?pdf" by (rule os_remove_gone [OF r2])
  then have b: "\<not> os_path_exists w' ?pdf" by (rule os_remove_keeps_absent [OF r3])
  have c: "\<not> os_path_exists w' ?docx" by (rule os_remove_gone [OF r3])
  from a b c show ?thesis by simp
qed

lemma office_giga:
  "fst (generate_gigantografia office_env letter_world ''tmp'' sample_data ''P'') = Inr ''P_gigantografia.pdf''"
  by code_simp

theorem generate_gigantografia_cleans_on_success_witness:
  "fst (generate_gigantografia office_env letter_world ''tmp'' sample_data ''P'') = Inr ''P_gigantografia.pdf''
   \<and> \<not> os_path_exists (snd (generate_gigantografia office_env letter_world ''tmp'' sample_data ''P''))
         ''tmp/P_temp.tiff''
   \<and> \<not> os_path_exists (snd (generate_gigantografia office_env letter_world ''tmp'' sample_data ''P''))
         ''tmp/P_giga_temp.pdf''
   \<and> \<not> os_path_exists (snd (generate_gigantografia office_env letter_world ''tmp'' sample_data ''P''))
         ''tmp/P_giga_temp.docx''"
proof -
  let ?g = "generate_gigantografia office_env letter_world ''tmp'' sample_data ''P''"
  have "?g = (Inr ''P_gigantografia.pdf'', snd ?g)"
    using office_giga by (metis prod.collapse)
  from generate_gigantografia_cleans_on_success [OF this] office_giga show ?thesis
    by (simp add: os_path_join_def)
qed

text \<open>
  C6 as stated fails: the three removals are the last statements of the generator and nothing
  catches their errors.  When the rendering gives no page the generator raises and the
  intermediate PDF and document stay; when the intermediate PDF is missing at cleanup its
  removal raises, the generation is reported as failed and the intermediate document stays.
\<close>

theorem generate_gigantografia_leaves_intermediates:
  "fst (generate_gigantografia blank_env letter_world ''tmp'' sample_data ''P'')
     = Inl (IndexError ''list index out of range'')
   \<and> os_path_exists (snd (generate_gigantografia blank_env letter_world ''tmp'' sample_data ''P''))
        ''tmp/P_giga_temp.pdf''
   \<and> os_path_exists (snd (generate_gigantografia blank_env letter_world ''tmp'' sample_data ''P''))
        ''tmp/P_giga_temp.docx''
   \<and> fst (generate_gigantografia raster_env letter_world ''tmp'' sample_data ''P'')
     = Inl (enoent ''tmp/P_giga_temp.pdf'')
   \<and> os_path_exists (snd (generate_gigantografia raster_env letter_world ''tmp'' sample_data ''P''))
        ''tmp/P_giga_temp.docx''"
  by code_simp

section \<open>Large format: page size and colour mode\<close>

lemma round_width: "py_round (100 / 2.54 * 300) = 11811"
proof -
  have "\<lfloor>100 / 2.54 * 300 :: real\<rfloor> = 11811" by (rule floor_unique) simp_all
  then show ?thesis by (simp add: py_round_def)
qed

lemma round_height: "py_round (150 / 2.54 * 300) = 17717"
proof -
  have "\<lfloor>150 / 2.54 * 300 :: real\<rfloor> = 17716" by (rule floor_unique) simp_all
  then show ?thesis by (simp add: py_round_def)
qed

lemma write_file_Inr:
  assumes "write_file w p c = (Inr (), w')"
  obtains q where "resolve w' p = Some q" "q \<noteq> []" "last q = last (split_sep p)"
    "map_of (files w') q = Some (File (clock w) False c)" "cwd w' = cwd w"
proof -
  let ?cs = "split_sep p"
  from assms obtain q where rn: "resolve_new w p = Inr q"
    and nd: "map_of (files w) q \<noteq> Some Dir"
    and w': "w' = w\<lparr>files := (q, File (clock w) False c) # delete_key q (files w)\<rparr>"
    by (auto simp: write_file_def split: sum.splits option.splits node.splits bool.splits)
  from resolve_new_Inr [OF rn] obtain d where p: "p \<noteq> []"
    and wd: "walk (files w) (start_of w p) (butlast ?cs) = Some d"
    and dir: "is_dir (files w) d" and vn: "valid_name (last ?cs)" and q: "q = d @ [last ?cs]"
    by blast
  let ?fs' = "(q, File (clock w) False c) # delete_key q (files w)"
  from q nd have t: "touches_only q (files w) ?fs'" by (intro touches_only_put) auto
  from q have dq: "d \<noteq> q" by simp
  have wd': "walk ?fs' (start_of w p) (butlast ?cs) = Some d"
    by (rule touches_only_walk [OF t wd dq])
  have dir': "is_dir ?fs' d" using touches_only_is_dir [OF t] dir by simp
  have cs: "?cs = butlast ?cs @ [last ?cs]" by (simp add: split_sep_nonempty)
  have "walk ?fs' (start_of w p) ?cs = walk ?fs' d [last ?cs]"
    by (subst cs) (simp only: walk_append wd' option.case)
  also have "\<dots> = Some q" using dir' q by (simp add: walk_name [OF vn] del: walk.simps)
  finally have wq: "walk ?fs' (start_of w p) ?cs = Some q" .
  have st: "start_of w' p = start_of w p" by (simp add: w' start_of_def)
  from wq p have r: "resolve w' p = Some q" by (simp add: resolve_def st) (simp add: w')
  from q w' r that show thesis by simp
qed

lemma read_after_write:
  assumes "write_file w p c = (Inr (), w')"
  shows "read_file w' p = Inr c"
proof -
  from assms obtain q where "resolve w' p = Some q" "q \<noteq> []"
    "map_of (files w') q = Some (File (clock w) False c)"
    by (rule write_file_Inr)
  then show ?thesis by (simp add: read_file_def lookup_path_def node_at_def)
qed

lemma resolve_last:
  assumes "resolve w p = Some q" "valid_name (last (split_sep p))"
  shows "q \<noteq> [] \<and> last q = last (split_sep p)"
proof -
  from assms(1) have "walk (files w) (start_of w p) (split_sep p) = Some q"
    by (auto simp: resolve_def split: if_splits)
  from walk_last [OF this split_sep_nonempty assms(2)] show ?thesis by simp
qed

lemma os_remove_frame:
  assumes rm: "os_remove w p = (Inr (), w')" and vn: "valid_name (last (split_sep p))"
    and r2: "resolve w p2 = Some d" and ne: "last d \<noteq> last (split_sep p)"
  shows "resolve w' p2 = Some d \<and> map_of (files w') d = map_of (files w) d"
proof -
  from rm obtain q t c where q: "resolve w p = Some q"
    "w' = w\<lparr>files := delete_key q (files w)\<rparr>" "touches_only q (files w) (files w')"
    by (rule os_remove_Inr)
  from resolve_last [OF q(1) vn] ne have dq: "d \<noteq> q" by auto
  from q(2,3) have t: "touches_only q (files w) (delete_key q (files w))" by simp
  from resolve_after_touch [OF t r2 dq] q(2) have "resolve w' p2 = Some d" by simp
  moreover from q(3) dq have "map_of (files w') d = map_of (files w) d"
    by (simp add: touches_only_def)
  ultimately show ?thesis by simp
qed

lemma valid_name_suffix:
  assumes "CHR ''/'' \<notin> set b" "CHR ''/'' \<notin> set suf" "2 < length suf"
  shows "valid_name (b @ suf)"
proof -
  have "length (b @ suf) > 2" using assms(3) by simp
  then have "b @ suf \<noteq> []" "b @ suf \<noteq> ''.''" "b @ suf \<noteq> ''..''"
    by (auto dest: arg_cong [where f = length])
  with assms(1,2) show ?thesis by (simp add: valid_name_def)
qed

lemma last_split_join_suffix:
  assumes "CHR ''/'' \<notin> set suf" "2 < length suf"
  shows "last (split_sep (os_path_join ts (P @ suf))) = last (split_sep (os_path_join ts P)) @ suf"
proof -
  from assms have s: "suf \<noteq> []" "hd suf \<noteq> CHR ''/''" by (cases suf; auto)+
  show ?thesis by (simp add: os_path_join_suffix [OF s] split_sep_suffix [OF assms(1)])
qed

lemma valid_last_split_join_suffix:
  assumes "CHR ''/'' \<notin> set suf" "2 < length suf"
  shows "valid_name (last (split_sep (os_path_join ts (P @ suf))))"
proof -
  have "last (split_sep (os_path_join ts P)) \<in> set (split_sep (os_path_join ts P))"
    by (simp add: split_sep_nonempty)
  then have "CHR ''/'' \<notin> set (last (split_sep (os_path_join ts P)))"
    by (rule split_sep_no_slash)
  from valid_name_suffix [OF this assms] show ?thesis
    by (simp only: last_split_join_suffix [OF assms])
qed

text \<open>
  C2.  When the large-format generation returns a file name, the PDF at the output path has
  exactly one page, of size 11811 by 17717, carrying one image in mode CMYK of 11811 by 17717
  pixels drawn at the origin over the whole page; 11811 and 17717 are 100 cm and 150 cm at
  300 DPI, rounded.
\<close>

theorem generate_gigantografia_page:
  assumes "generate_gigantografia ev w temp_storage data project_name = (Inr f, w')"
  shows "read_file w' (os_path_join temp_storage (project_name @ ''_gigantografia.pdf''))
           = Inr (Pdf [\<lparr>page_size = (11811, 17717),
                        page_images = [\<lparr>di_image = \<lparr>img_mode = ''CMYK'', img_size = (11811, 17717)\<rparr>,
                                        di_x = 0, di_y = 0, di_width = 11811, di_height = 17717\<rparr>]\<rparr>])
       \<and> py_round (100 / 2.54 * 300) = 11811 \<and> py_round (150 / 2.54 * 300) = 17717"
proof -
  let ?img = "os_path_join temp_storage (project_name @ ''_temp.tiff'')"
  let ?pdf = "os_path_join temp_storage (project_name @ ''_giga_temp.pdf'')"
  let ?docx = "os_path_join temp_storage (project_name @ ''_giga_temp.docx'')"
  let ?final = "os_path_join temp_storage (project_name @ ''_gigantografia.pdf'')"
  let ?base = "last (split_sep (os_path_join temp_storage project_name))"
  let ?raster = "\<lparr>img_mode = ''CMYK'', img_size = (11811, 17717)\<rparr>"
  let ?pages = "[\<lparr>page_size = (11811, 17717),
                  page_images = [\<lparr>di_image = ?raster, di_x = 0, di_y = 0,
                                  di_width = 11811, di_height = 17717\<rparr>]\<rparr>]"
  from assms obtain w2 img0 w3 c1 w4 w5 w6 where
    sv: "img_save w2 (img_resize (if img_mode img0 \<noteq> ''CMYK'' then img_convert img0 ''CMYK'' else img0)
           (11811, 17717)) ?img = (Inr (), w3)"
    and dr: "drawImage w3 (Canvas ?final (11811, 17717)) ?img 0 0 11811 17717 = Inr c1"
    and cs: "canvas_save w3 c1 = (Inr (), w4)"
    and r1: "os_remove w4 ?img = (Inr (), w5)" and r2: "os_remove w5 ?pdf = (Inr (), w6)"
    and r3: "os_remove w6 ?docx = (Inr (), w')"
    by (auto simp: generate_gigantografia_def Let_def split: prod.splits sum.splits)
  have raster: "img_resize (if img_mode img0 \<noteq> ''CMYK'' then img_convert img0 ''CMYK'' else img0)
           (11811, 17717) = ?raster"
    by (simp add: img_resize_def img_convert_def)
  from sv have "read_file w3 ?img = Inr (Tiff ?raster)"
    unfolding raster img_save_def by (rule read_after_write)
  with dr have c1: "c1 = \<lparr>c_filename = ?final, c_pagesize = (11811, 17717),
      c_code = [\<lparr>di_image = ?raster, di_x = 0, di_y = 0, di_width = 11811, di_height = 17717\<rparr>],
      c_pages = []\<rparr>"
    by (simp add: drawImage_def Canvas_def)
  from cs have wr: "write_file w3 ?final (Pdf ?pages) = (Inr (), w4)"
    by (simp add: canvas_save_def c1 showPage_def)
  then obtain qf where qf: "resolve w4 ?final = Some qf" "qf \<noteq> []"
    "last qf = last (split_sep ?final)" "map_of (files w4) qf = Some (File (clock w3) False (Pdf ?pages))"
    by (rule write_file_Inr)
  have lf: "last qf = ?base @ ''_gigantografia.pdf''"
    unfolding qf(3) by (rule last_split_join_suffix) simp_all
  have l1: "last (split_sep ?img) = ?base @ ''_temp.tiff''"
    by (rule last_split_join_suffix) simp_all
  have l2: "last (split_sep ?pdf) = ?base @ ''_giga_temp.pdf''"
    by (rule last_split_join_suffix) simp_all
  have l3: "last (split_sep ?docx) = ?base @ ''_giga_temp.docx''"
    by (rule last_split_join_suffix) simp_all
  have v1: "valid_name (last (split_sep ?img))" by (rule valid_last_split_join_suffix) simp_all
  have v2: "valid_name (last (split_sep ?pdf))" by (rule valid_last_split_join_suffix) simp_all
  have v3: "valid_name (last (split_sep ?docx))" by (rule valid_last_split_join_suffix) simp_all
  have s5: "resolve w5 ?final = Some qf \<and> map_of (files w5) qf = map_of (files w4) qf"
    by (rule os_remove_frame [OF r1 v1 qf(1)]) (simp add: lf l1)
  then have s6: "resolve w6 ?final = Some qf \<and> map_of (files w6) qf = map_of (files w5) qf"
    by (intro os_remove_frame [OF r2 v2]) (simp_all add: lf l2)
  then have s7: "resolve w' ?final = Some qf \<and> map_of (files w') qf = map_of (files w6) qf"
    by (intro os_remove_frame [OF r3 v3]) (simp_all add: lf l3)
  from s5 s6 s7 qf have "read_file w' ?final = Inr (Pdf ?pages)"
    by (simp add: read_file_def lookup_path_def node_at_def)
  with round_width round_height show ?thesis by simp
qed

theorem generate_gigantografia_page_witness:
  "fst (generate_gigantografia office_env letter_world ''tmp'' sample_data ''P'') = Inr ''P_gigantografia.pdf''
   \<and> read_file (snd (generate_gigantografia office_env letter_world ''tmp'' sample_data ''P''))
        ''tmp/P_gigantografia.pdf''
       = Inr (Pdf [\<lparr>page_size = (11811, 17717),
                    page_images = [\<lparr>di_image = \<lparr>img_mode = ''CMYK'', img_size = (11811, 17717)\<rparr>,
                                    di_x = 0, di_y = 0, di_width = 11811, di_height = 17717\<rparr>]\<rparr>])"
proof -
  let ?g = "generate_gigantografia office_env letter_world ''tmp'' sample_data ''P''"
  have "?g = (Inr ''P_gigantografia.pdf'', snd ?g)"
    using office_giga by (metis prod.collapse)
  from generate_gigantografia_page [OF this] office_giga show ?thesis
    by (simp add: os_path_join_def)
qed

end
